theory Spec2Isabelle
  imports Main "HOL-Library.Word"
begin

section \<open>deemon: a daemon that keeps a command running and lets clients attach\<close>

text \<open>
  The development embeds \<^verbatim>\<open>src/unnamed/part_001\<close> (the current \<^verbatim>\<open>main.ts\<close>; lines 1-306)
  and, for the output buffer, also the older \<^verbatim>\<open>src/src/main.ts\<close>.
  The program is event driven: the source registers callbacks on the server, on each
  socket, on the child process, on the replay stream and on timers. Each callback is a
  function from the daemon's (or client's) state to the new state, and the event loop is
  the fold of these functions over a list of events. The order of the events is the
  environment's choice; the theorems quantify over it.
\<close>

subsection \<open>Bytes and the wire constants\<close>

type_synonym byte = "8 word"
type_synonym bytes = "byte list"

definition KILL :: byte where
  "KILL = 0"

definition TALK :: byte where
  "TALK = 1"

text \<open>\<^verbatim>\<open>new Uint8Array([n])\<close> stores the integer \<open>n\<close> modulo 256.\<close>

definition uint8 :: "int \<Rightarrow> byte" where
  "uint8 n = word_of_int n"

text \<open>A JavaScript string written to a socket, as its bytes (the strings of the source are ASCII).\<close>

definition bytes_of :: "string \<Rightarrow> bytes" where
  "bytes_of s = map (\<lambda>c. word_of_nat (of_char c)) s"

subsection \<open>The output buffer (\<^verbatim>\<open>onData\<close>, lines 69-76)\<close>

text \<open>
  \<^verbatim>\<open>bl.append(data); if (bl.length > CAP) bl.consume(bl.length - CAP)\<close>:
  \<^verbatim>\<open>consume(k)\<close> drops the first \<open>k\<close> bytes. \<open>CAP\<close> is \<open>100_000_000\<close> in
  \<^verbatim>\<open>part_001\<close> and \<open>1_000_000\<close> in \<^verbatim>\<open>src/src/main.ts\<close>.
\<close>

definition onData_cap :: "nat \<Rightarrow> bytes \<Rightarrow> bytes \<Rightarrow> bytes" where
  "onData_cap cap bl data =
     (let bl' = bl @ data
      in if length bl' > cap then drop (length bl' - cap) bl' else bl')"

definition onData :: "bytes \<Rightarrow> bytes \<Rightarrow> bytes" where
  "onData = onData_cap 100000000"

definition onData_main_ts :: "bytes \<Rightarrow> bytes \<Rightarrow> bytes" where
  "onData_main_ts = onData_cap 1000000"

text \<open>The last \<open>n\<close> elements of a list (the whole list when it is shorter).\<close>

definition window :: "nat \<Rightarrow> 'a list \<Rightarrow> 'a list" where
  "window n xs = drop (length xs - n) xs"

subsection \<open>Sockets\<close>

text \<open>
  A socket of the daemon, seen from the daemon. \<open>wire\<close> is every byte the daemon has
  written to it, in order. A write does not always reach the operating system at once:
  while the system does not take the socket's bytes (\<open>blocked\<close>), or while earlier bytes
  still wait, Node keeps the bytes written in its own \<open>queue\<close>; \<open>flushed\<close> are the bytes
  handed to the operating system, which are the bytes the client at the other end gets.
  \<open>ended\<close> records \<^verbatim>\<open>socket.end()\<close>; \<open>destroyed\<close> records \<^verbatim>\<open>socket.destroy()\<close> or the
  socket's \<^verbatim>\<open>'close'\<close>. A write on an ended or destroyed socket delivers nothing (Node
  reports an error on the stream instead); no theorem below depends on such a write.
  Sockets are numbered in the order the server accepted them.
\<close>

record socket =
  wire :: bytes
  flushed :: bytes
  queue :: bytes
  blocked :: bool
  ended :: bool
  destroyed :: bool

definition new_socket :: socket where
  "new_socket =
     \<lparr>wire = [], flushed = [], queue = [], blocked = False, ended = False, destroyed = False\<rparr>"

definition writable :: "socket list \<Rightarrow> nat \<Rightarrow> bool" where
  "writable ss s = (s < length ss \<and> \<not> ended (ss ! s) \<and> \<not> destroyed (ss ! s))"

text \<open>
  \<^verbatim>\<open>socket.write(data)\<close>: the bytes go to the operating system at once when it takes them
  and nothing waits before them, and into the queue otherwise.
\<close>

definition sock_write :: "nat \<Rightarrow> bytes \<Rightarrow> socket list \<Rightarrow> socket list" where
  "sock_write s data ss =
     (if writable ss s then
        ss[s := (if blocked (ss ! s) \<or> queue (ss ! s) \<noteq> []
                 then (ss ! s)\<lparr>wire := wire (ss ! s) @ data, queue := queue (ss ! s) @ data\<rparr>
                 else (ss ! s)\<lparr>wire := wire (ss ! s) @ data, flushed := flushed (ss ! s) @ data\<rparr>)]
      else ss)"

text \<open>\<^verbatim>\<open>socket.end(data)\<close>: write \<open>data\<close>, then half-close.\<close>

definition sock_end :: "nat \<Rightarrow> bytes \<Rightarrow> socket list \<Rightarrow> socket list" where
  "sock_end s data ss =
     (let ss' = sock_write s data ss
      in if s < length ss' then ss'[s := (ss' ! s)\<lparr>ended := True\<rparr>] else ss')"

text \<open>
  \<^verbatim>\<open>socket.destroy()\<close> closes the handle at once: the bytes still in the queue are
  discarded and never reach the client.
\<close>

definition sock_destroy :: "nat \<Rightarrow> socket list \<Rightarrow> socket list" where
  "sock_destroy s ss =
     (if s < length ss then ss[s := (ss ! s)\<lparr>queue := [], destroyed := True\<rparr>] else ss)"

text \<open>
  The operating system stops taking the socket's bytes (its buffer is full: the client
  reads slowly or not yet), and it takes everything that waits (Node's \<^verbatim>\<open>'drain'\<close>).
\<close>

definition sock_block :: "nat \<Rightarrow> socket list \<Rightarrow> socket list" where
  "sock_block s ss = (if s < length ss then ss[s := (ss ! s)\<lparr>blocked := True\<rparr>] else ss)"

definition sock_drain :: "nat \<Rightarrow> socket list \<Rightarrow> socket list" where
  "sock_drain s ss =
     (if s < length ss
      then ss[s := (ss ! s)\<lparr>flushed := flushed (ss ! s) @ queue (ss ! s), queue := [], blocked := False\<rparr>]
      else ss)"

subsection \<open>The daemon's state (\<^verbatim>\<open>spawnCommand\<close>, lines 61-152)\<close>

record Options =
  daemon :: bool
  kill :: bool
  restart :: bool
  detach :: bool
  wait :: bool
  attach :: bool

text \<open>The two output streams of the child.\<close>

datatype fd = Stdout | Stderr

text \<open>What a pending \<^verbatim>\<open>setTimeout\<close> callback of the daemon does when it fires.\<close>

datatype timer_action =
    ClearJustSpawned             \<comment> \<open>line 82: \<^verbatim>\<open>justSpawned = false\<close>\<close>
  | SocketWrite nat string       \<comment> \<open>lines 119, 122: \<^verbatim>\<open>socket.write(banner)\<close>\<close>
  | CloseAndExit int             \<comment> \<open>lines 107-110: \<^verbatim>\<open>server.close(); process.exit(exitCode)\<close>\<close>

text \<open>
  The variables \<^verbatim>\<open>spawnCommand\<close> closes over, and the effects a claim speaks about.
  \<^item> \<open>clients\<close> is the JavaScript \<^verbatim>\<open>Set\<close>, in insertion order.
  \<^item> \<open>stdout_pipes\<close> and \<open>stderr_pipes\<close> are the destinations \<^verbatim>\<open>child.stdout\<close> and
    \<^verbatim>\<open>child.stderr\<close> are piped to; a destination piped twice is listed twice.
  \<^item> \<open>childExitCode\<close> and \<open>childSignal\<close>: \<open>None\<close> is \<^verbatim>\<open>undefined\<close>, \<open>Some None\<close> is
    \<^verbatim>\<open>null\<close> (the \<^verbatim>\<open>'close'\<close> event of a child passes \<^verbatim>\<open>null\<close> for the code of a child
    killed by a signal, and for the signal of a child that exited).
  \<^item> \<open>streams\<close> are the \<^verbatim>\<open>bl.duplicate()\<close> snapshots being piped into a socket: the
    destination and the bytes not yet written to it.
  \<^item> \<open>timers\<close> are the pending \<^verbatim>\<open>setTimeout\<close> callbacks with their delays in ms.
  \<^item> \<open>treekills\<close> counts the calls \<^verbatim>\<open>treekill(child.pid)\<close>; \<open>listening\<close> is false once
    \<^verbatim>\<open>server.close()\<close> was called; \<open>exited\<close> is the code given to \<^verbatim>\<open>process.exit\<close>.
\<close>

record daemon_state =
  bl :: bytes
  clients :: "nat list"
  stdout_pipes :: "nat list"
  stderr_pipes :: "nat list"
  justSpawned :: bool
  childExitCode :: "int option option"
  childSignal :: "string option option"
  sockets :: "socket list"
  streams :: "(nat \<times> bytes) list"
  timers :: "(nat \<times> timer_action) list"
  treekills :: nat
  listening :: bool
  exited :: "int option"

text \<open>The state after \<^verbatim>\<open>spawnCommand\<close> has run its body (lines 62-85).\<close>

definition spawnCommand :: daemon_state where
  "spawnCommand =
     \<lparr>bl = [], clients = [], stdout_pipes = [], stderr_pipes = [], justSpawned = True,
      childExitCode = None, childSignal = None, sockets = [], streams = [],
      timers = [(210, ClearJustSpawned)], treekills = 0, listening = True, exited = None\<rparr>"

text \<open>The events the daemon's callbacks are registered for.\<close>

datatype event =
    Connection                                \<comment> \<open>the server's \<^verbatim>\<open>'connection'\<close>: a new socket\<close>
  | SocketData nat bytes                      \<comment> \<open>a socket's \<^verbatim>\<open>'data'\<close>: a chunk from its client\<close>
  | SocketClose nat                           \<comment> \<open>a socket's \<^verbatim>\<open>'close'\<close>\<close>
  | StreamData nat nat                        \<comment> \<open>the pipe of snapshot \<open>i\<close> writes its next \<open>n\<close> bytes\<close>
  | StreamEnd nat                             \<comment> \<open>snapshot \<open>i\<close> has drained: its \<^verbatim>\<open>'end'\<close>\<close>
  | ChildData fd bytes                        \<comment> \<open>\<^verbatim>\<open>'data'\<close> of the child's stdout or stderr\<close>
  | ChildClose "int option" "string option"   \<comment> \<open>the child's \<^verbatim>\<open>'close'\<close> with code and signal\<close>
  | Timeout nat                               \<comment> \<open>pending timer \<open>i\<close> fires\<close>
  | SocketBlock nat                           \<comment> \<open>the system stops taking a socket's bytes\<close>
  | SocketDrain nat                           \<comment> \<open>the system takes a socket's waiting bytes\<close>

subsection \<open>The daemon's callbacks\<close>

text \<open>
  \<^verbatim>\<open>Set.add\<close>, \<^verbatim>\<open>Set.delete\<close>, and \<^verbatim>\<open>readable.unpipe(dest)\<close>, which removes one pipe to the
  destination (Node splices one entry out of the readable's list of pipes).
\<close>

definition set_add :: "nat \<Rightarrow> nat list \<Rightarrow> nat list" where
  "set_add s cs = (if s \<in> set cs then cs else cs @ [s])"

definition set_delete :: "nat \<Rightarrow> nat list \<Rightarrow> nat list" where
  "set_delete s cs = removeAll s cs"

definition unpipe :: "nat \<Rightarrow> nat list \<Rightarrow> nat list" where
  "unpipe s ps = remove1 s ps"

definition remove_nth :: "nat \<Rightarrow> 'a list \<Rightarrow> 'a list" where
  "remove_nth i xs = take i xs @ drop (Suc i) xs"

text \<open>\<^verbatim>\<open>x ?? 1\<close> for an exit code that is \<^verbatim>\<open>null\<close> or a number, and for one that may also be \<^verbatim>\<open>undefined\<close>.\<close>

definition code_or_1 :: "int option \<Rightarrow> int" where
  "code_or_1 code = (case code of None \<Rightarrow> 1 | Some n \<Rightarrow> n)"

definition nullish_or_1 :: "int option option \<Rightarrow> int" where
  "nullish_or_1 c = (case c of None \<Rightarrow> 1 | Some code \<Rightarrow> code_or_1 code)"

text \<open>
  A JavaScript number that is an integer, as the template string of line 105 prints it:
  its decimal digits, most significant first, after a minus sign when it is negative.
\<close>

definition digit_char :: "nat \<Rightarrow> char" where
  "digit_char k = char_of (k + 48)"

function decimal :: "nat \<Rightarrow> string \<Rightarrow> string" where
  "decimal n acc =
     (if n < 10 then digit_char n # acc
      else decimal (n div 10) (digit_char (n mod 10) # acc))"
  by pat_completeness auto
termination
  by (relation "measure fst") auto

definition show_number :: "int \<Rightarrow> string" where
  "show_number i = (if i < 0 then CHR ''-'' # decimal (nat (- i)) [] else decimal (nat i) [])"

definition show_code :: "int option option \<Rightarrow> string" where
  "show_code c =
     (case c of None \<Rightarrow> ''undefined'' | Some None \<Rightarrow> ''null'' | Some (Some n) \<Rightarrow> show_number n)"

definition show_signal :: "string option option \<Rightarrow> string" where
  "show_signal c =
     (case c of None \<Rightarrow> ''undefined'' | Some None \<Rightarrow> ''null'' | Some (Some sg) \<Rightarrow> sg)"

definition stopped_line :: "int option option \<Rightarrow> string option option \<Rightarrow> string" where
  "stopped_line c sg =
     ''[deemon] Daemon was stopped when client attached (exit code '' @ show_code c
       @ '', signal '' @ show_signal sg @ '').'' @ [CHR 0x0A]"

definition spawned_banner :: string where
  "spawned_banner =
     ''[deemon] Spawned build daemon. Press Ctrl-C to detach, Ctrl-D to kill.'' @ [CHR 0x0A]"

definition attached_banner :: string where
  "attached_banner =
     ''[deemon] Attached to running build daemon. Press Ctrl-C to detach, Ctrl-D to kill.'' @ [CHR 0x0A]"

text \<open>
  The socket's \<^verbatim>\<open>'data'\<close> callback (lines 88-96): the first byte of the chunk is the command.
  \<^verbatim>\<open>KILL\<close> calls \<^verbatim>\<open>treekill\<close>; \<^verbatim>\<open>TALK\<close> duplicates the buffer and starts piping the copy
  into the socket. The callback of the copy's \<^verbatim>\<open>'end'\<close> is \<open>on_stream_end\<close>. An empty chunk
  has no first byte (\<^verbatim>\<open>buffer[0]\<close> is \<^verbatim>\<open>undefined\<close>) and matches neither command.
\<close>

definition on_socket_data :: "nat \<Rightarrow> bytes \<Rightarrow> daemon_state \<Rightarrow> daemon_state" where
  "on_socket_data s buffer d =
     (case buffer of
        [] \<Rightarrow> d
      | command # _ \<Rightarrow>
          if command = KILL then d\<lparr>treekills := Suc (treekills d)\<rparr>
          else if command = TALK then d\<lparr>streams := streams d @ [(s, bl d)]\<rparr>
          else d)"

text \<open>The callback of the snapshot's \<^verbatim>\<open>'end'\<close> (lines 97-124), for the socket \<open>s\<close> it was piped to.\<close>

definition on_stream_end :: "nat \<Rightarrow> daemon_state \<Rightarrow> daemon_state" where
  "on_stream_end s d =
     (if childExitCode d \<noteq> None \<or> childSignal d \<noteq> None then
        let exitCode = nullish_or_1 (childExitCode d);
            ss1 = fold (\<lambda>client. sock_end client [uint8 exitCode]) (clients d) (sockets d);
            ss2 = sock_write s (bytes_of (stopped_line (childExitCode d) (childSignal d))) ss1;
            ss3 = sock_end s [uint8 exitCode] ss2
        in d\<lparr>sockets := ss3, timers := timers d @ [(0, CloseAndExit exitCode)]\<rparr>
      else
        let d1 = d\<lparr>stdout_pipes := stdout_pipes d @ [s],
                   stderr_pipes := stderr_pipes d @ [s],
                   clients := set_add s (clients d)\<rparr>
        in if justSpawned d1
           then d1\<lparr>timers := timers d1 @ [(200, SocketWrite s spawned_banner)], justSpawned := False\<rparr>
           else d1\<lparr>timers := timers d1 @ [(0, SocketWrite s attached_banner)]\<rparr>)"

text \<open>
  The socket's \<^verbatim>\<open>'close'\<close>. First the callback of the source (lines 128-134). Then the
  callbacks every \<^verbatim>\<open>pipe()\<close> into the socket has registered on the socket's \<^verbatim>\<open>'close'\<close>:
  each removes its own pipe, so no pipe of the child leads to the closed socket any more,
  and a snapshot still being piped into it stops, so its \<^verbatim>\<open>'end'\<close> never comes.
\<close>

definition on_socket_close :: "nat \<Rightarrow> daemon_state \<Rightarrow> daemon_state" where
  "on_socket_close s d =
     (let d1 = (if s \<in> set (clients d)
                then d\<lparr>stdout_pipes := unpipe s (stdout_pipes d),
                       stderr_pipes := unpipe s (stderr_pipes d),
                       clients := set_delete s (clients d)\<rparr>
                else d)
      in d1\<lparr>sockets := sock_destroy s (sockets d1),
            streams := filter (\<lambda>(s', rest). s' \<noteq> s) (streams d1),
            stdout_pipes := removeAll s (stdout_pipes d1),
            stderr_pipes := removeAll s (stderr_pipes d1)\<rparr>)"

text \<open>
  \<^verbatim>\<open>'data'\<close> of the child's stdout or stderr: \<^verbatim>\<open>onData\<close> was registered first (lines
  78-79), then each pipe writes the chunk to its destination.
\<close>

definition on_child_data :: "fd \<Rightarrow> bytes \<Rightarrow> daemon_state \<Rightarrow> daemon_state" where
  "on_child_data f data d =
     d\<lparr>bl := onData (bl d) data,
       sockets := fold (\<lambda>s. sock_write s data)
                    (case f of Stdout \<Rightarrow> stdout_pipes d | Stderr \<Rightarrow> stderr_pipes d) (sockets d)\<rparr>"

text \<open>The child's \<^verbatim>\<open>'close'\<close> callback (lines 137-151).\<close>

definition on_child_close :: "Options \<Rightarrow> int option \<Rightarrow> string option \<Rightarrow> daemon_state \<Rightarrow> daemon_state" where
  "on_child_close options code signal d =
     (if wait options \<and> clients d = [] then
        d\<lparr>childExitCode := Some code, childSignal := Some signal\<rparr>
      else
        d\<lparr>sockets := fold (\<lambda>client ss. sock_destroy client (sock_end client [uint8 (code_or_1 code)] ss))
                       (clients d) (sockets d),
          listening := False,
          exited := Some (code_or_1 code)\<rparr>)"

definition on_timeout :: "timer_action \<Rightarrow> daemon_state \<Rightarrow> daemon_state" where
  "on_timeout a d =
     (case a of
        ClearJustSpawned \<Rightarrow> d\<lparr>justSpawned := False\<rparr>
      | SocketWrite s text \<Rightarrow> d\<lparr>sockets := sock_write s (bytes_of text) (sockets d)\<rparr>
      | CloseAndExit c \<Rightarrow> d\<lparr>listening := False, exited := Some c\<rparr>)"

subsection \<open>The daemon's event loop\<close>

text \<open>
  One turn of the event loop. After \<^verbatim>\<open>process.exit\<close> nothing runs, and no queue is
  flushed any more. A closed server accepts
  no connection, a destroyed socket emits nothing, and an event for a socket, snapshot or
  timer that does not exist does not happen. The pipe of a snapshot writes the snapshot's
  bytes in order, \<open>StreamData\<close> by \<open>StreamData\<close>; \<open>StreamEnd\<close> writes what is left and
  then runs the \<^verbatim>\<open>'end'\<close> callback.
\<close>

definition step :: "Options \<Rightarrow> event \<Rightarrow> daemon_state \<Rightarrow> daemon_state" where
  "step options e d =
     (if exited d \<noteq> None then d
      else case e of
        Connection \<Rightarrow>
          if listening d then d\<lparr>sockets := sockets d @ [new_socket]\<rparr> else d
      | SocketData s buffer \<Rightarrow>
          if s < length (sockets d) \<and> \<not> destroyed (sockets d ! s) then on_socket_data s buffer d else d
      | SocketClose s \<Rightarrow>
          if s < length (sockets d) \<and> \<not> destroyed (sockets d ! s) then on_socket_close s d else d
      | StreamData i n \<Rightarrow>
          if i < length (streams d) then
            (case streams d ! i of (s, rest) \<Rightarrow>
               d\<lparr>sockets := sock_write s (take n rest) (sockets d),
                 streams := (streams d)[i := (s, drop n rest)]\<rparr>)
          else d
      | StreamEnd i \<Rightarrow>
          if i < length (streams d) then
            (case streams d ! i of (s, rest) \<Rightarrow>
               on_stream_end s
                 (d\<lparr>sockets := sock_write s rest (sockets d),
                    streams := remove_nth i (streams d)\<rparr>))
          else d
      | ChildData f data \<Rightarrow> on_child_data f data d
      | ChildClose code signal \<Rightarrow> on_child_close options code signal d
      | Timeout i \<Rightarrow>
          if i < length (timers d)
          then on_timeout (snd (timers d ! i)) (d\<lparr>timers := remove_nth i (timers d)\<rparr>)
          else d
      | SocketBlock s \<Rightarrow>
          if s < length (sockets d) \<and> \<not> destroyed (sockets d ! s)
          then d\<lparr>sockets := sock_block s (sockets d)\<rparr> else d
      | SocketDrain s \<Rightarrow>
          if s < length (sockets d) \<and> \<not> destroyed (sockets d ! s)
          then d\<lparr>sockets := sock_drain s (sockets d)\<rparr> else d)"

definition run :: "Options \<Rightarrow> event list \<Rightarrow> daemon_state \<Rightarrow> daemon_state" where
  "run options es d = fold (step options) es d"

text \<open>What the client of socket \<open>s\<close> has been sent.\<close>

definition received :: "daemon_state \<Rightarrow> nat \<Rightarrow> bytes" where
  "received d s = wire (sockets d ! s)"

text \<open>
  What of it has reached the operating system, and so the client. Bytes still in Node's
  queue when the socket is destroyed, or when the process exits, are never delivered.
\<close>

definition delivered :: "daemon_state \<Rightarrow> nat \<Rightarrow> bytes" where
  "delivered d s = flushed (sockets d ! s)"

text \<open>
  The system has taken every byte written to socket \<open>s\<close> so far, and it takes the next
  write at once.
\<close>

definition flowing :: "socket list \<Rightarrow> nat \<Rightarrow> bool" where
  "flowing ss s \<longleftrightarrow>
     s < length ss \<and> \<not> blocked (ss ! s) \<and> queue (ss ! s) = [] \<and> flushed (ss ! s) = wire (ss ! s)"

subsection \<open>Traces of the daemon\<close>

text \<open>An event other than the child's \<^verbatim>\<open>'close'\<close>: a trace of such events is one during which the child runs.\<close>

definition child_open :: "event \<Rightarrow> bool" where
  "child_open e = (case e of ChildClose code signal \<Rightarrow> False | _ \<Rightarrow> True)"

text \<open>
  What holds of the daemon while the child runs: it has not exited and still listens, no
  exit is recorded, no socket was ended, snapshots are piped into existing sockets that are
  not destroyed, the live clients are existing sockets that are not destroyed, the child's
  pipes lead to existing sockets, and no timer is set to shut the daemon down.
\<close>

definition running_inv :: "daemon_state \<Rightarrow> bool" where
  "running_inv d \<longleftrightarrow>
     exited d = None \<and> listening d \<and> childExitCode d = None \<and> childSignal d = None
     \<and> (\<forall>k < length (sockets d). \<not> ended (sockets d ! k))
     \<and> (\<forall>x \<in> set (streams d). fst x < length (sockets d) \<and> \<not> destroyed (sockets d ! fst x))
     \<and> (\<forall>s \<in> set (clients d). s < length (sockets d) \<and> \<not> destroyed (sockets d ! s))
     \<and> (\<forall>p \<in> set (stdout_pipes d). p < length (sockets d))
     \<and> (\<forall>p \<in> set (stderr_pipes d). p < length (sockets d))
     \<and> (\<forall>t \<in> set (timers d). \<forall>c. snd t \<noteq> CloseAndExit c)"

text \<open>
  The events that can come while snapshot \<open>i\<close> drains without touching its socket
  otherwise: output of the child, and the pipe of the snapshot writing its next bytes.
\<close>

definition drain_event :: "nat \<Rightarrow> event \<Rightarrow> bool" where
  "drain_event i e = (case e of ChildData f data \<Rightarrow> True | StreamData j n \<Rightarrow> j = i | _ \<Rightarrow> False)"

text \<open>
  The events that can come after the child's \<^verbatim>\<open>'close'\<close> was recorded in wait mode and
  before a client has been answered: the child neither writes nor closes again, and no
  snapshot has ended yet.
\<close>

definition waiting_event :: "event \<Rightarrow> bool" where
  "waiting_event e =
     (case e of ChildClose code signal \<Rightarrow> False | ChildData f data \<Rightarrow> False
      | StreamEnd i \<Rightarrow> False | _ \<Rightarrow> True)"

text \<open>
  What holds of the daemon in that time: it has not exited and still listens, the child's
  code and signal are recorded, there is no live client, the buffer is \<open>buf\<close>, the child's
  pipes lead to existing sockets, and no timer is set to shut the daemon down.
\<close>

definition waiting_inv :: "int option \<Rightarrow> string option \<Rightarrow> bytes \<Rightarrow> daemon_state \<Rightarrow> bool" where
  "waiting_inv code signal buf d \<longleftrightarrow>
     exited d = None \<and> listening d \<and> childExitCode d = Some code \<and> childSignal d = Some signal
     \<and> clients d = [] \<and> bl d = buf
     \<and> (\<forall>p \<in> set (stdout_pipes d). p < length (sockets d))
     \<and> (\<forall>p \<in> set (stderr_pipes d). p < length (sockets d))
     \<and> (\<forall>t \<in> set (timers d). \<forall>c. snd t \<noteq> CloseAndExit c)"

text \<open>
  The events that can come while the snapshot of that client, on socket \<open>s\<close>, drains:
  anything but the child's \<^verbatim>\<open>'close'\<close>, the end of a snapshot, the \<^verbatim>\<open>'close'\<close> of a socket,
  a further chunk from the client itself, and a write to its socket left pending.
\<close>

definition late_event :: "nat \<Rightarrow> event \<Rightarrow> bool" where
  "late_event s e =
     (case e of ChildClose code signal \<Rightarrow> False | StreamEnd j \<Rightarrow> False
      | SocketClose t \<Rightarrow> False | SocketData t buffer \<Rightarrow> t \<noteq> s
      | SocketBlock t \<Rightarrow> t \<noteq> s | _ \<Rightarrow> True)"

text \<open>
  What holds of the daemon in that time: it has not exited and still listens, code and
  signal are recorded, there is no live client; snapshot \<open>i\<close>, and no other, goes to the
  socket \<open>s\<close>, which is writable and whose bytes the system has taken; what \<open>s\<close> was sent
  so far followed by what is left of the snapshot is \<open>goal\<close>; no pipe of the child and no
  banner timer leads to \<open>s\<close>, and no timer is set to shut the daemon down.
\<close>

definition late_inv :: "nat \<Rightarrow> nat \<Rightarrow> bytes \<Rightarrow> int option \<Rightarrow> string option \<Rightarrow> daemon_state \<Rightarrow> bool" where
  "late_inv i s goal code signal d \<longleftrightarrow>
     exited d = None \<and> listening d \<and> childExitCode d = Some code \<and> childSignal d = Some signal
     \<and> clients d = []
     \<and> i < length (streams d) \<and> fst (streams d ! i) = s
     \<and> (\<forall>j < length (streams d). j \<noteq> i \<longrightarrow> fst (streams d ! j) \<noteq> s)
     \<and> writable (sockets d) s \<and> flowing (sockets d) s
     \<and> wire (sockets d ! s) @ snd (streams d ! i) = goal
     \<and> s \<notin> set (stdout_pipes d) \<and> s \<notin> set (stderr_pipes d)
     \<and> (\<forall>t \<in> set (timers d). \<forall>c. snd t \<noteq> CloseAndExit c)
     \<and> (\<forall>t \<in> set (timers d). \<forall>msg. snd t \<noteq> SocketWrite s msg)"

text \<open>
  Snapshots and banner timers lead to sockets the server has accepted; this holds after
  every trace.
\<close>

definition targets_inv :: "daemon_state \<Rightarrow> bool" where
  "targets_inv d \<longleftrightarrow>
     (\<forall>x \<in> set (streams d). fst x < length (sockets d))
     \<and> (\<forall>t \<in> set (timers d). \<forall>k msg. snd t = SocketWrite k msg \<longrightarrow> k < length (sockets d))"

text \<open>Output of the child, and the bytes of a trace of such events, in order.\<close>

definition child_data_event :: "event \<Rightarrow> bool" where
  "child_data_event e = (case e of ChildData f data \<Rightarrow> True | _ \<Rightarrow> False)"

definition child_output :: "event list \<Rightarrow> bytes" where
  "child_output es = concat (map (\<lambda>e. case e of ChildData f data \<Rightarrow> data | _ \<Rightarrow> []) es)"

text \<open>
  \<open>draining i s goal d d'\<close>: compared with \<open>d\<close>, the state \<open>d'\<close> differs only in the
  buffer, the sockets' wires and what is left of the snapshots; snapshot \<open>i\<close> goes to the
  writable socket \<open>s\<close>, and what \<open>s\<close> was sent so far followed by what is left of the
  snapshot is \<open>goal\<close>.
\<close>

definition draining :: "nat \<Rightarrow> nat \<Rightarrow> bytes \<Rightarrow> daemon_state \<Rightarrow> daemon_state \<Rightarrow> bool" where
  "draining i s goal d d' \<longleftrightarrow>
     exited d' = None \<and> listening d' = listening d \<and> clients d' = clients d
     \<and> stdout_pipes d' = stdout_pipes d \<and> stderr_pipes d' = stderr_pipes d
     \<and> justSpawned d' = justSpawned d \<and> childExitCode d' = childExitCode d
     \<and> childSignal d' = childSignal d \<and> timers d' = timers d \<and> treekills d' = treekills d
     \<and> length (sockets d') = length (sockets d) \<and> length (streams d') = length (streams d)
     \<and> i < length (streams d') \<and> fst (streams d' ! i) = s \<and> writable (sockets d') s
     \<and> wire (sockets d' ! s) @ snd (streams d' ! i) = goal"

text \<open>The options of a daemon launched without \<^verbatim>\<open>--wait\<close>, for the examples.\<close>

definition daemon_options :: Options where
  "daemon_options = \<lparr>daemon = True, kill = False, restart = False, detach = False, wait = False, attach = False\<rparr>"

text \<open>The options of a daemon launched with \<^verbatim>\<open>--wait\<close>.\<close>

definition wait_options :: Options where
  "wait_options = \<lparr>daemon = True, kill = False, restart = False, detach = False, wait = True, attach = False\<rparr>"

unbundle bit_operations_syntax

subsection \<open>MD5 (RFC 1321), the digest of \<^verbatim>\<open>crypto.createHash("md5")\<close>\<close>

type_synonym u32 = "32 word"
type_synonym md5_state = "u32 \<times> u32 \<times> u32 \<times> u32"

definition md5_K :: "u32 list" where
  "md5_K =
     [0xd76aa478, 0xe8c7b756, 0x242070db, 0xc1bdceee, 0xf57c0faf, 0x4787c62a, 0xa8304613, 0xfd469501,
      0x698098d8, 0x8b44f7af, 0xffff5bb1, 0x895cd7be, 0x6b901122, 0xfd987193, 0xa679438e, 0x49b40821,
      0xf61e2562, 0xc040b340, 0x265e5a51, 0xe9b6c7aa, 0xd62f105d, 0x02441453, 0xd8a1e681, 0xe7d3fbc8,
      0x21e1cde6, 0xc33707d6, 0xf4d50d87, 0x455a14ed, 0xa9e3e905, 0xfcefa3f8, 0x676f02d9, 0x8d2a4c8a,
      0xfffa3942, 0x8771f681, 0x6d9d6122, 0xfde5380c, 0xa4beea44, 0x4bdecfa9, 0xf6bb4b60, 0xbebfbc70,
      0x289b7ec6, 0xeaa127fa, 0xd4ef3085, 0x04881d05, 0xd9d4d039, 0xe6db99e5, 0x1fa27cf8, 0xc4ac5665,
      0xf4292244, 0x432aff97, 0xab9423a7, 0xfc93a039, 0x655b59c3, 0x8f0ccc92, 0xffeff47d, 0x85845dd1,
      0x6fa87e4f, 0xfe2ce6e0, 0xa3014314, 0x4e0811a1, 0xf7537e82, 0xbd3af235, 0x2ad7d2bb, 0xeb86d391]"

definition md5_shift :: "nat list" where
  "md5_shift =
     concat (replicate 4 [7, 12, 17, 22]) @ concat (replicate 4 [5, 9, 14, 20])
     @ concat (replicate 4 [4, 11, 16, 23]) @ concat (replicate 4 [6, 10, 15, 21])"

text \<open>Operation \<open>i\<close> of the 64 operations on one block \<open>m\<close> of sixteen words.\<close>

definition md5_step :: "u32 list \<Rightarrow> nat \<Rightarrow> md5_state \<Rightarrow> md5_state" where
  "md5_step m i h =
     (case h of (a, b, c, d) \<Rightarrow>
        let (f, g) =
              (if i < 16 then ((b AND c) OR (NOT b AND d), i)
               else if i < 32 then ((d AND b) OR (NOT d AND c), (5 * i + 1) mod 16)
               else if i < 48 then (b XOR c XOR d, (3 * i + 5) mod 16)
               else (c XOR (b OR NOT d), (7 * i) mod 16))
        in (d, b + word_rotl (md5_shift ! i) (f + a + md5_K ! i + m ! g), b, c))"

definition md5_block :: "u32 list \<Rightarrow> md5_state \<Rightarrow> md5_state" where
  "md5_block m h =
     (case h of (a0, b0, c0, d0) \<Rightarrow>
        case fold (md5_step m) [0..<64] h of (a, b, c, d) \<Rightarrow> (a0 + a, b0 + b, c0 + c, d0 + d))"

text \<open>Little-endian words from bytes and bytes from words.\<close>

definition word_le :: "bytes \<Rightarrow> u32" where
  "word_le bs = foldr (\<lambda>b w. ucast b OR push_bit 8 w) bs 0"

definition bytes_le :: "nat \<Rightarrow> 64 word \<Rightarrow> bytes" where
  "bytes_le k w = map (\<lambda>j. ucast (drop_bit (8 * j) w)) [0..<k]"

definition md5_pad :: "bytes \<Rightarrow> bytes" where
  "md5_pad msg =
     msg @ [0x80] @ replicate ((64 - (length msg + 9) mod 64) mod 64) 0
       @ bytes_le 8 (word_of_nat (8 * length msg))"

definition md5_blocks :: "bytes \<Rightarrow> u32 list list" where
  "md5_blocks padded =
     map (\<lambda>j. map (\<lambda>k. word_le (take 4 (drop (64 * j + 4 * k) padded))) [0..<16])
       [0..<length padded div 64]"

definition md5 :: "bytes \<Rightarrow> bytes" where
  "md5 msg =
     (case fold md5_block (md5_blocks (md5_pad msg))
             (0x67452301, 0xefcdab89, 0x98badcfe, 0x10325476) of
        (a, b, c, d) \<Rightarrow> concat (map (\<lambda>w. bytes_le 4 (ucast w)) [a, b, c, d]))"

text \<open>\<^verbatim>\<open>digest("hex")\<close>: two lower-case hexadecimal digits per byte.\<close>

definition hex :: "bytes \<Rightarrow> string" where
  "hex bs =
     concat (map (\<lambda>b. [''0123456789abcdef'' ! (unat b div 16), ''0123456789abcdef'' ! (unat b mod 16)]) bs)"

subsection \<open>The address of a command (\<^verbatim>\<open>getIPCHandle\<close>, lines 20-36)\<close>

record Command =
  path :: string
  args :: "string list"
  cwd :: string

text \<open>What \<^verbatim>\<open>getIPCHandle\<close> reads of the process: \<^verbatim>\<open>process.platform\<close>,
  \<^verbatim>\<open>process.env["XDG_RUNTIME_DIR"]\<close> (\<open>None\<close> when unset) and \<^verbatim>\<open>os.tmpdir()\<close>.\<close>

record environment =
  platform :: string
  XDG_RUNTIME_DIR :: "string option"
  tmpdir :: string

text \<open>\<^verbatim>\<open>Array.prototype.toString\<close> on an array of strings: the elements joined by commas.\<close>

fun join_with :: "string \<Rightarrow> string list \<Rightarrow> string" where
  "join_with sep [] = []"
| "join_with sep [x] = x"
| "join_with sep (x # y # ys) = x @ sep @ join_with sep (y # ys)"

definition toString :: "string list \<Rightarrow> string" where
  "toString xs = join_with '','' xs"

text \<open>
  \<^verbatim>\<open>path.join\<close> of Node on a POSIX platform: the non-empty arguments joined by \<open>/\<close>, then
  normalised: empty and \<open>.\<close> segments go, a \<open>..\<close> segment removes the segment before it
  (it stays at the front of a relative path), a leading and a trailing \<open>/\<close> are kept.
\<close>

fun split_on :: "char \<Rightarrow> string \<Rightarrow> string list" where
  "split_on c [] = [[]]"
| "split_on c (x # xs) =
     (if x = c then [] # split_on c xs
      else case split_on c xs of [] \<Rightarrow> [[x]] | s # ss \<Rightarrow> (x # s) # ss)"

fun normalize_segments :: "bool \<Rightarrow> string list \<Rightarrow> string list \<Rightarrow> string list" where
  "normalize_segments allow_up acc [] = rev acc"
| "normalize_segments allow_up acc (seg # segs) =
     (if seg = [] \<or> seg = ''.'' then normalize_segments allow_up acc segs
      else if seg = ''..'' then
        (case acc of
           [] \<Rightarrow> normalize_segments allow_up (if allow_up then [seg] else []) segs
         | newest # older \<Rightarrow>
             if newest = ''..'' then normalize_segments allow_up (if allow_up then seg # acc else acc) segs
             else normalize_segments allow_up older segs)
      else normalize_segments allow_up (seg # acc) segs)"

definition normalize :: "string \<Rightarrow> string" where
  "normalize p =
     (if p = [] then ''.''
      else let isAbsolute = (hd p = CHR ''/'');
               trailingSeparator = (last p = CHR ''/'');
               q = join_with ''/'' (normalize_segments (\<not> isAbsolute) [] (split_on CHR ''/'' p))
           in if q = [] then (if isAbsolute then ''/'' else if trailingSeparator then ''./'' else ''.'')
              else (if isAbsolute then ''/'' else []) @ q @ (if trailingSeparator then ''/'' else []))"

definition path_join :: "string \<Rightarrow> string \<Rightarrow> string" where
  "path_join a b =
     (let parts = filter (\<lambda>s. s \<noteq> []) [a, b]
      in if parts = [] then ''.'' else normalize (join_with ''/'' parts))"

text \<open>
  The digest is fed the path, the arguments' \<^verbatim>\<open>toString()\<close> and the working directory,
  one \<^verbatim>\<open>update\<close> after the other, with nothing in between. Strings are given as their
  UTF-8 bytes. The template string of line 29 denotes \<^verbatim>\<open>\\.\pipe\daemon-\<close> followed by the
  digest; \<^verbatim>\<open>x || y\<close> takes \<open>y\<close> when \<open>x\<close> is unset or empty.
\<close>

definition getIPCHandle :: "environment \<Rightarrow> Command \<Rightarrow> string" where
  "getIPCHandle env command =
     (let scope = hex (md5 (bytes_of (path command) @ bytes_of (toString (args command))
                              @ bytes_of (cwd command)))
      in if platform env = ''win32''
         then [CHR 0x5C, CHR 0x5C, CHR ''.'', CHR 0x5C] @ ''pipe'' @ [CHR 0x5C] @ ''daemon-'' @ scope
         else path_join
                (case XDG_RUNTIME_DIR env of
                   None \<Rightarrow> tmpdir env
                 | Some dir \<Rightarrow> if dir = [] then tmpdir env else dir)
                (''daemon-'' @ scope @ ''.sock''))"

subsection \<open>The client: connecting or launching (\<^verbatim>\<open>spawnDaemon\<close>, \<^verbatim>\<open>connect\<close>, lines 154-182)\<close>

text \<open>\<^verbatim>\<open>process.execPath\<close> and \<^verbatim>\<open>process.argv[1]\<close>.\<close>

record process_info =
  execPath :: string
  argv1 :: string

text \<open>An error object with its \<^verbatim>\<open>code\<close>.\<close>

datatype error = Error (err_code: string)

text \<open>What the client does to the outside, apart from writing to its sockets and its output.\<close>

datatype effect =
    CreateServer string            \<comment> \<open>\<^verbatim>\<open>createServer(handle)\<close>\<close>
  | CreateConnection string        \<comment> \<open>\<^verbatim>\<open>createConnection(handle)\<close>\<close>
  | Unlink string                  \<comment> \<open>\<^verbatim>\<open>fs.promises.unlink(handle)\<close>\<close>
  | Spawn string "string list"     \<comment> \<open>\<^verbatim>\<open>cp.spawn(execPath, args, {detached: true, stdio: "ignore"})\<close>\<close>
  | Sleep nat                      \<comment> \<open>\<^verbatim>\<open>await new Promise((c) => setTimeout(c, ms))\<close>\<close>
  | ConsoleError string            \<comment> \<open>\<^verbatim>\<open>console.error\<close>\<close>

text \<open>How \<^verbatim>\<open>connect\<close> ends: it returns a socket, calls \<^verbatim>\<open>process.exit\<close>, or throws.\<close>

datatype outcome = Return | Exit int | Throw error

text \<open>
  What the operating system answers during one call of \<^verbatim>\<open>connect\<close>: to the first
  \<^verbatim>\<open>createConnection\<close>, to \<^verbatim>\<open>unlink\<close>, and to the second \<^verbatim>\<open>createConnection\<close>
  (\<open>None\<close> is success).
\<close>

record answers =
  first_try :: "error option"
  unlink_result :: "error option"
  retry :: "error option"

definition spawnDaemon :: "process_info \<Rightarrow> Command \<Rightarrow> Options \<Rightarrow> effect" where
  "spawnDaemon p command options =
     Spawn (execPath p)
       ([argv1 p, ''--daemon''] @ (if wait options then [''--wait''] else [])
          @ [path command] @ args command)"

text \<open>Lines 178-180: launch, wait 200 ms, connect again; a failure of that attempt is thrown.\<close>

definition launch :: "process_info \<Rightarrow> answers \<Rightarrow> Command \<Rightarrow> string \<Rightarrow> Options \<Rightarrow> effect list \<times> outcome" where
  "launch p os command handle options =
     ([spawnDaemon p command options, Sleep 200, CreateConnection handle],
      case retry os of None \<Rightarrow> Return | Some err \<Rightarrow> Throw err)"

definition connect :: "process_info \<Rightarrow> answers \<Rightarrow> Command \<Rightarrow> string \<Rightarrow> Options \<Rightarrow> effect list \<times> outcome" where
  "connect p os command handle options =
     (case first_try os of
        None \<Rightarrow> ([CreateConnection handle], Return)
      | Some err \<Rightarrow>
          if attach options \<and> (err_code err = ''ENOENT'' \<or> err_code err = ''ECONNREFUSED'') then
            ([CreateConnection handle, ConsoleError ''[deemon] No daemon running.''], Exit 1)
          else if err_code err = ''ECONNREFUSED'' then
            (case unlink_result os of
               Some unlink_err \<Rightarrow> ([CreateConnection handle, Unlink handle], Throw unlink_err)
             | None \<Rightarrow>
                 (case launch p os command handle options of
                    (fx, r) \<Rightarrow> ([CreateConnection handle, Unlink handle] @ fx, r)))
          else if err_code err \<noteq> ''ENOENT'' then ([CreateConnection handle], Throw err)
          else
            (case launch p os command handle options of
               (fx, r) \<Rightarrow> ([CreateConnection handle] @ fx, r)))"

subsection \<open>The client: \<^verbatim>\<open>main\<close> (lines 193-270)\<close>

text \<open>
  The client process: \<open>cur_socket\<close> is the variable \<^verbatim>\<open>socket\<close> (the first connection is
  socket 0, the one made after a restart is socket 1); \<open>sent\<close> lists the calls
  \<^verbatim>\<open>socket.write\<close> with the socket written to; \<open>stdout\<close> is what \<^verbatim>\<open>process.stdout.write\<close>
  was given; \<open>console\<close> the lines of \<^verbatim>\<open>console.log\<close>; \<open>lastByte\<close> and \<open>lastByteTimer\<close> the
  variables of lines 246-247 (the timer: whether one is pending); \<open>handlers\<close> says that the
  callbacks of lines 233-269 are registered; \<open>client_exit\<close> is the code given to
  \<^verbatim>\<open>process.exit\<close>.
\<close>

record client_state =
  cur_socket :: nat
  sent :: "(nat \<times> bytes) list"
  stdout :: bytes
  console :: "string list"
  effects :: "effect list"
  lastByte :: "byte option"
  lastByteTimer :: bool
  handlers :: bool
  client_exit :: "int option"

definition start :: client_state where
  "start = \<lparr>cur_socket = 0, sent = [], stdout = [], console = [], effects = [],
            lastByte = None, lastByteTimer = False, handlers = False, client_exit = None\<rparr>"

text \<open>Lines 226-269: send \<open>TALK\<close> on the current socket and register the callbacks.\<close>

definition attach_session :: "client_state \<Rightarrow> client_state" where
  "attach_session c = c\<lparr>sent := sent c @ [(cur_socket c, [TALK])], handlers := True\<rparr>"

text \<open>A call of \<^verbatim>\<open>connect\<close> inside \<^verbatim>\<open>main\<close>: an error it throws reaches the \<^verbatim>\<open>catch\<close> of
  line 303, which prints it and exits with 1.\<close>

definition connected :: "effect list \<times> outcome \<Rightarrow> client_state \<Rightarrow> (client_state \<Rightarrow> client_state) \<Rightarrow> client_state" where
  "connected r c continue =
     (case r of
        (fx, Return) \<Rightarrow> continue (c\<lparr>effects := effects c @ fx\<rparr>)
      | (fx, Exit n) \<Rightarrow> c\<lparr>effects := effects c @ fx, client_exit := Some n\<rparr>
      | (fx, Throw err) \<Rightarrow>
          c\<lparr>effects := effects c @ fx @ [ConsoleError (err_code err)], client_exit := Some 1\<rparr>)"

definition main ::
  "process_info \<Rightarrow> environment \<Rightarrow> answers \<Rightarrow> answers \<Rightarrow> Command \<Rightarrow> Options \<Rightarrow> client_state" where
  "main p env os1 os2 command options =
     (let handle = getIPCHandle env command in
      if daemon options then start\<lparr>effects := [CreateServer handle]\<rparr>
      else if detach options then
        start\<lparr>effects := [spawnDaemon p command options],
              console := [''[deemon] Detached from build daemon.'']
                @ (if wait options
                   then [''[deemon] Daemon will wait for a client to connect before exiting.'']
                   else []),
              client_exit := Some 0\<rparr>
      else
        connected (connect p os1 command handle options) start (\<lambda>c.
          if kill options then c\<lparr>sent := sent c @ [(cur_socket c, [KILL])]\<rparr>
          else if restart options then
            connected (connect p os2 command handle options)
              (c\<lparr>sent := sent c @ [(cur_socket c, [KILL])], effects := effects c @ [Sleep 500]\<rparr>)
              (\<lambda>c'. attach_session (c'\<lparr>cur_socket := 1\<rparr>))
          else attach_session c))"

text \<open>The callbacks of the attached client.\<close>

datatype client_event =
    Keypress string        \<comment> \<open>\<^verbatim>\<open>'keypress'\<close> of standard input\<close>
  | Data bytes             \<comment> \<open>\<^verbatim>\<open>'data'\<close> of the socket\<close>
  | LastByteTimeout        \<comment> \<open>the timer of line 261 fires\<close>
  | Close                  \<comment> \<open>\<^verbatim>\<open>'close'\<close> of the socket\<close>

definition ctrl_c :: string where
  "ctrl_c = [CHR 0x03]"

definition ctrl_d :: string where
  "ctrl_d = [CHR 0x04]"

definition on_keypress :: "string \<Rightarrow> client_state \<Rightarrow> client_state" where
  "on_keypress key c =
     (if key = ctrl_c then
        c\<lparr>console := console c @ [''[deemon] Detached from build daemon.''], client_exit := Some 0\<rparr>
      else if key = ctrl_d then
        c\<lparr>console := console c @ [''[deemon] Killed build daemon.''],
          sent := sent c @ [(cur_socket c, [KILL])],
          client_exit := Some 0\<rparr>
      else c)"

text \<open>Lines 249-263. \<^verbatim>\<open>clearTimeout\<close> comes first, also for an empty chunk.\<close>

definition on_data :: "bytes \<Rightarrow> client_state \<Rightarrow> client_state" where
  "on_data data c =
     (let c1 = c\<lparr>lastByteTimer := False\<rparr> in
      if length data = 0 then c1
      else
        let c2 = (case lastByte c1 of None \<Rightarrow> c1 | Some b \<Rightarrow> c1\<lparr>stdout := stdout c1 @ [b]\<rparr>);
            c3 = c2\<lparr>lastByte := Some (last data)\<rparr>
        in if length data > 1
           then c3\<lparr>stdout := stdout c3 @ butlast data, lastByteTimer := True\<rparr>
           else c3)"

text \<open>The timer's callback, line 261: \<^verbatim>\<open>process.stdout.write(lastByte)\<close>.\<close>

definition on_last_byte_timeout :: "client_state \<Rightarrow> client_state" where
  "on_last_byte_timeout c =
     (case lastByte c of
        None \<Rightarrow> c\<lparr>lastByteTimer := False\<rparr>
      | Some b \<Rightarrow> c\<lparr>stdout := stdout c @ [b], lastByteTimer := False\<rparr>)"

text \<open>Lines 265-269.\<close>

definition on_close :: "client_state \<Rightarrow> client_state" where
  "on_close c =
     (let code = (case lastByte c of None \<Rightarrow> 0 | Some b \<Rightarrow> uint b)
      in c\<lparr>console := console c @ [''[deemon] Build daemon exited with code '' @ show_number code],
           client_exit := Some code\<rparr>)"

text \<open>One turn of the client's event loop. The timer fires only while it is pending.\<close>

definition client_step :: "client_event \<Rightarrow> client_state \<Rightarrow> client_state" where
  "client_step e c =
     (if client_exit c \<noteq> None \<or> \<not> handlers c then c
      else case e of
        Keypress key \<Rightarrow> on_keypress key c
      | Data data \<Rightarrow> on_data data c
      | LastByteTimeout \<Rightarrow> if lastByteTimer c then on_last_byte_timeout c else c
      | Close \<Rightarrow> on_close c)"

definition client_run :: "client_event list \<Rightarrow> client_state \<Rightarrow> client_state" where
  "client_run es c = fold client_step es c"

text \<open>The bytes the client has written to socket \<open>k\<close>, in order.\<close>

definition sent_on :: "client_state \<Rightarrow> nat \<Rightarrow> bytes" where
  "sent_on c k = concat (map snd (filter (\<lambda>w. fst w = k) (sent c)))"

text \<open>The byte held back, as a list.\<close>

definition held :: "client_state \<Rightarrow> bytes" where
  "held c = (case lastByte c of None \<Rightarrow> [] | Some b \<Rightarrow> [b])"

subsection \<open>Values for the examples\<close>

text \<open>A Linux process environment, the Node process of the client, operating system answers
  without an error, the options of a plain invocation, and a command.\<close>

definition linux :: environment where
  "linux = \<lparr>platform = ''linux'', XDG_RUNTIME_DIR = Some ''/run/user/1000'', tmpdir = ''/tmp''\<rparr>"

definition node :: process_info where
  "node = \<lparr>execPath = ''/usr/bin/node'', argv1 = ''/usr/lib/node_modules/deemon/main.js''\<rparr>"

definition no_error :: answers where
  "no_error = \<lparr>first_try = None, unlink_result = None, retry = None\<rparr>"

definition plain_options :: Options where
  "plain_options = \<lparr>daemon = False, kill = False, restart = False, detach = False, wait = False, attach = False\<rparr>"

definition date_loop :: Command where
  "date_loop = \<lparr>path = ''/bin/bash'', args = [''-c'', ''while true; do date; sleep 1; done''], cwd = ''/home/u''\<rparr>"

subsection \<open>Properties of the output buffer\<close>

lemma onData_cap_window: "onData_cap cap buf data = window cap (buf @ data)"
  by (simp add: onData_cap_def window_def Let_def)

lemma window_window_append: "window n (window n xs @ ys) = window n (xs @ ys)"
proof (cases "length xs \<le> n")
  case True
  then show ?thesis by (simp add: window_def)
next
  case False
  then have "length xs - n + (n + length ys - n) = length xs + length ys - n" by arith
  with False show ?thesis by (simp add: window_def add.commute)
qed

lemma length_window: "length (window n xs) = min n (length xs)"
  by (simp add: window_def)

lemma window_short: "length xs \<le> n \<Longrightarrow> window n xs = xs"
  by (simp add: window_def)

lemma foldl_onData_cap:
  "length buf \<le> cap \<Longrightarrow> foldl (onData_cap cap) buf chunks = window cap (buf @ concat chunks)"
proof (induction chunks arbitrary: buf)
  case Nil
  then show ?case by (simp add: window_short)
next
  case (Cons c cs)
  have "length (window cap (buf @ c)) \<le> cap"
    by (simp add: length_window)
  then have "foldl (onData_cap cap) (window cap (buf @ c)) cs
             = window cap (window cap (buf @ c) @ concat cs)"
    by (rule Cons.IH)
  moreover have "foldl (onData_cap cap) buf (c # cs) = foldl (onData_cap cap) (window cap (buf @ c)) cs"
    by (simp only: foldl.simps onData_cap_window)
  ultimately show ?case
    by (simp only: window_window_append concat.simps append_assoc)
qed

subsection \<open>Sockets: what a write, an end, a destroy and the system change\<close>

lemma length_sock_write [simp]: "length (sock_write s data ss) = length ss"
  by (simp add: sock_write_def)

lemma length_sock_end [simp]: "length (sock_end s data ss) = length ss"
  by (simp add: sock_end_def Let_def)

lemma length_sock_destroy [simp]: "length (sock_destroy s ss) = length ss"
  by (simp add: sock_destroy_def)

lemma sock_write_other: "t \<noteq> s \<Longrightarrow> sock_write s data ss ! t = ss ! t"
  by (simp add: sock_write_def)

lemma sock_end_other: "t \<noteq> s \<Longrightarrow> sock_end s data ss ! t = ss ! t"
  by (simp add: sock_end_def Let_def sock_write_other)

lemma sock_destroy_other: "t \<noteq> s \<Longrightarrow> sock_destroy s ss ! t = ss ! t"
  by (simp add: sock_destroy_def)

lemma wire_sock_write:
  "wire (sock_write s data ss ! t) = (if t = s \<and> writable ss s then wire (ss ! s) @ data else wire (ss ! t))"
  by (auto simp add: sock_write_def writable_def)

lemma ended_sock_write [simp]: "ended (sock_write s data ss ! t) = ended (ss ! t)"
  by (cases "t = s") (auto simp add: sock_write_def writable_def)

lemma destroyed_sock_write [simp]: "destroyed (sock_write s data ss ! t) = destroyed (ss ! t)"
  by (cases "t = s") (auto simp add: sock_write_def writable_def)

lemma writable_sock_write [simp]: "writable (sock_write s data ss) t = writable ss t"
  by (simp add: writable_def)

lemma wire_sock_end:
  "wire (sock_end s data ss ! t) = (if t = s \<and> writable ss s then wire (ss ! s) @ data else wire (ss ! t))"
  by (cases "t = s") (auto simp add: sock_end_def Let_def wire_sock_write)

lemma ended_sock_end: "t < length ss \<Longrightarrow> ended (sock_end s data ss ! t) = (t = s \<or> ended (ss ! t))"
  by (cases "t = s") (auto simp add: sock_end_def Let_def)

lemma destroyed_sock_end [simp]: "destroyed (sock_end s data ss ! t) = destroyed (ss ! t)"
  by (cases "t = s") (auto simp add: sock_end_def Let_def)

lemma wire_sock_destroy [simp]: "wire (sock_destroy s ss ! t) = wire (ss ! t)"
  by (cases "t = s") (auto simp add: sock_destroy_def)

lemma ended_sock_destroy [simp]: "ended (sock_destroy s ss ! t) = ended (ss ! t)"
  by (cases "t = s") (auto simp add: sock_destroy_def)

lemma destroyed_sock_destroy:
  "t < length ss \<Longrightarrow> destroyed (sock_destroy s ss ! t) = (t = s \<or> destroyed (ss ! t))"
  by (cases "t = s") (auto simp add: sock_destroy_def)

lemma length_sock_block [simp]: "length (sock_block s ss) = length ss"
  by (simp add: sock_block_def)

lemma length_sock_drain [simp]: "length (sock_drain s ss) = length ss"
  by (simp add: sock_drain_def)

lemma wire_sock_block [simp]: "wire (sock_block s ss ! t) = wire (ss ! t)"
  by (cases "t = s") (auto simp add: sock_block_def)

lemma ended_sock_block [simp]: "ended (sock_block s ss ! t) = ended (ss ! t)"
  by (cases "t = s") (auto simp add: sock_block_def)

lemma destroyed_sock_block [simp]: "destroyed (sock_block s ss ! t) = destroyed (ss ! t)"
  by (cases "t = s") (auto simp add: sock_block_def)

lemma wire_sock_drain [simp]: "wire (sock_drain s ss ! t) = wire (ss ! t)"
  by (cases "t = s") (auto simp add: sock_drain_def)

lemma ended_sock_drain [simp]: "ended (sock_drain s ss ! t) = ended (ss ! t)"
  by (cases "t = s") (auto simp add: sock_drain_def)

lemma destroyed_sock_drain [simp]: "destroyed (sock_drain s ss ! t) = destroyed (ss ! t)"
  by (cases "t = s") (auto simp add: sock_drain_def)

lemma writable_sock_block [simp]: "writable (sock_block s ss) t = writable ss t"
  by (simp add: writable_def)

lemma writable_sock_drain [simp]: "writable (sock_drain s ss) t = writable ss t"
  by (simp add: writable_def)

lemma flushed_sock_write:
  "flushed (sock_write s data ss ! t)
   = (if t = s \<and> writable ss s \<and> \<not> blocked (ss ! s) \<and> queue (ss ! s) = []
      then flushed (ss ! s) @ data else flushed (ss ! t))"
  by (cases "t = s") (auto simp add: sock_write_def writable_def)

lemma blocked_sock_write [simp]: "blocked (sock_write s data ss ! t) = blocked (ss ! t)"
  by (cases "t = s") (auto simp add: sock_write_def writable_def)

lemma queue_empty_sock_write:
  "\<not> blocked (ss ! t) \<Longrightarrow> queue (ss ! t) = [] \<Longrightarrow> queue (sock_write s data ss ! t) = []"
  by (cases "t = s") (auto simp add: sock_write_def writable_def)

lemma flushed_sock_end:
  "flushed (sock_end s data ss ! t)
   = (if t = s \<and> writable ss s \<and> \<not> blocked (ss ! s) \<and> queue (ss ! s) = []
      then flushed (ss ! s) @ data else flushed (ss ! t))"
  by (cases "t = s") (auto simp add: sock_end_def Let_def flushed_sock_write)

lemma flushed_sock_destroy [simp]: "flushed (sock_destroy s ss ! t) = flushed (ss ! t)"
  by (cases "t = s") (auto simp add: sock_destroy_def)

text \<open>A socket the system keeps up with stays so, whatever is written, ended or destroyed.\<close>

lemma flowing_sock_write: "flowing ss s \<Longrightarrow> flowing (sock_write t data ss) s"
  by (cases "t = s") (auto simp add: flowing_def sock_write_def writable_def)

lemma flowing_sock_end: "flowing ss s \<Longrightarrow> flowing (sock_end t data ss) s"
  by (cases "t = s") (auto simp add: flowing_def sock_end_def sock_write_def writable_def Let_def)

lemma flowing_sock_destroy: "flowing ss s \<Longrightarrow> flowing (sock_destroy t ss) s"
  by (cases "t = s") (auto simp add: flowing_def sock_destroy_def)

lemma flowing_sock_block: "flowing ss s \<Longrightarrow> t \<noteq> s \<Longrightarrow> flowing (sock_block t ss) s"
  by (auto simp add: flowing_def sock_block_def)

lemma flowing_sock_drain: "flowing ss s \<Longrightarrow> flowing (sock_drain t ss) s"
  by (cases "t = s") (auto simp add: flowing_def sock_drain_def)

lemma flowing_append: "flowing ss s \<Longrightarrow> flowing (ss @ [x]) s"
  by (simp add: flowing_def nth_append)

lemma flowing_new: "flowing (ss @ [new_socket]) (length ss)"
  by (simp add: flowing_def new_socket_def)

lemma flowing_fold_write: "flowing ss s \<Longrightarrow> flowing (fold (\<lambda>p. sock_write p data) ps ss) s"
  by (induction ps arbitrary: ss) (simp_all add: flowing_sock_write)

lemma flowing_fold_end: "flowing ss s \<Longrightarrow> flowing (fold (\<lambda>client. sock_end client data) cs ss) s"
  by (induction cs arbitrary: ss) (simp_all add: flowing_sock_end)

lemma flowing_fold_finish:
  "flowing ss s \<Longrightarrow>
   flowing (fold (\<lambda>client ss. sock_destroy client (sock_end client data ss)) cs ss) s"
  by (induction cs arbitrary: ss) (simp_all add: flowing_sock_end flowing_sock_destroy)

lemma fold_sock_write_length [simp]: "length (fold (\<lambda>p. sock_write p data) ps ss) = length ss"
  by (induction ps arbitrary: ss) auto

lemma fold_sock_write_ended [simp]: "ended (fold (\<lambda>p. sock_write p data) ps ss ! t) = ended (ss ! t)"
  by (induction ps arbitrary: ss) auto

lemma fold_sock_write_destroyed [simp]: "destroyed (fold (\<lambda>p. sock_write p data) ps ss ! t) = destroyed (ss ! t)"
  by (induction ps arbitrary: ss) auto

lemma fold_sock_write_writable [simp]: "writable (fold (\<lambda>p. sock_write p data) ps ss) t = writable ss t"
  by (simp add: writable_def)

lemma fold_sock_write_wire:
  "writable ss t \<Longrightarrow>
   wire (fold (\<lambda>p. sock_write p data) ps ss ! t) = wire (ss ! t) @ concat (replicate (count_list ps t) data)"
proof (induction ps arbitrary: ss)
  case Nil
  show ?case by simp
next
  case (Cons p ps)
  have w: "writable (sock_write p data ss) t" using Cons.prems by simp
  show ?case using Cons.prems
    by (simp add: Cons.IH [OF w] wire_sock_write)
qed

lemma fold_sock_write_wire_unwritable:
  "\<not> writable ss t \<Longrightarrow> wire (fold (\<lambda>p. sock_write p data) ps ss ! t) = wire (ss ! t)"
proof (induction ps arbitrary: ss)
  case Nil
  show ?case by simp
next
  case (Cons p ps)
  have w: "\<not> writable (sock_write p data ss) t" using Cons.prems by simp
  show ?case using Cons.prems
    by (auto simp add: Cons.IH [OF w] wire_sock_write)
qed

lemma running_inv_spawn: "running_inv spawnCommand"
  by (simp add: running_inv_def spawnCommand_def)

lemma set_remove_nth: "set (remove_nth i xs) \<subseteq> set xs"
  unfolding remove_nth_def by (auto dest: in_set_takeD in_set_dropD)

lemma inv_connection: "running_inv d \<Longrightarrow> running_inv (step options Connection d)"
  by (auto simp add: running_inv_def step_def new_socket_def nth_append)

lemma inv_socket_data: "running_inv d \<Longrightarrow> running_inv (step options (SocketData s buffer) d)"
  by (auto simp add: running_inv_def step_def on_socket_data_def split: list.splits)

lemma inv_socket_close: "running_inv d \<Longrightarrow> running_inv (step options (SocketClose s) d)"
  by (auto simp add: running_inv_def step_def on_socket_close_def Let_def set_delete_def
        unpipe_def destroyed_sock_destroy dest: notin_set_remove1)

lemma inv_child_data: "running_inv d \<Longrightarrow> running_inv (step options (ChildData f data) d)"
  by (auto simp add: running_inv_def step_def on_child_data_def)

lemma inv_stream_socket:
  assumes "running_inv d" "i < length (streams d)" "streams d ! i = (s, rest)"
  shows "s < length (sockets d) \<and> \<not> destroyed (sockets d ! s) \<and> writable (sockets d) s"
proof -
  have "(s, rest) \<in> set (streams d)"
    using assms(2,3) nth_mem by fastforce
  then show ?thesis
    using assms(1) by (fastforce simp add: running_inv_def writable_def)
qed

lemma inv_stream_data:
  assumes "running_inv d"
  shows "running_inv (step options (StreamData i n) d)"
proof (cases "i < length (streams d)")
  case False
  then show ?thesis using assms by (simp add: step_def)
next
  case True
  obtain s rest where sr: "streams d ! i = (s, rest)" by (cases "streams d ! i")
  note ok = inv_stream_socket [OF assms True sr]
  have "set ((streams d)[i := (s, drop n rest)]) \<subseteq> insert (s, drop n rest) (set (streams d))"
    by (rule set_update_subset_insert)
  then show ?thesis
    using assms True sr ok by (auto simp add: running_inv_def step_def)
qed

lemma inv_stream_end:
  assumes "running_inv d"
  shows "running_inv (step options (StreamEnd i) d)"
proof (cases "i < length (streams d)")
  case False
  then show ?thesis using assms by (simp add: step_def)
next
  case True
  obtain s rest where sr: "streams d ! i = (s, rest)" by (cases "streams d ! i")
  note ok = inv_stream_socket [OF assms True sr]
  have "set (remove_nth i (streams d)) \<subseteq> set (streams d)"
    by (rule set_remove_nth)
  then show ?thesis
    using assms True sr ok
    by (auto simp add: running_inv_def step_def on_stream_end_def Let_def set_add_def)
qed

lemma inv_timeout:
  assumes "running_inv d"
  shows "running_inv (step options (Timeout i) d)"
proof (cases "i < length (timers d)")
  case False
  then show ?thesis using assms by (simp add: step_def)
next
  case True
  have sub: "set (remove_nth i (timers d)) \<subseteq> set (timers d)"
    by (rule set_remove_nth)
  have "timers d ! i \<in> set (timers d)" using True by simp
  then have nc: "snd (timers d ! i) \<noteq> CloseAndExit c" for c
    using assms by (simp add: running_inv_def)
  show ?thesis
  proof (cases "snd (timers d ! i)")
    case ClearJustSpawned
    then show ?thesis using assms True sub
      by (auto simp add: running_inv_def step_def on_timeout_def)
  next
    case (SocketWrite s msg)
    then show ?thesis using assms True sub
      by (auto simp add: running_inv_def step_def on_timeout_def)
  next
    case (CloseAndExit c)
    then show ?thesis using nc by simp
  qed
qed

lemma inv_socket_block: "running_inv d \<Longrightarrow> running_inv (step options (SocketBlock s) d)"
  by (auto simp add: running_inv_def step_def)

lemma inv_socket_drain: "running_inv d \<Longrightarrow> running_inv (step options (SocketDrain s) d)"
  by (auto simp add: running_inv_def step_def)

lemma inv_step: "running_inv d \<Longrightarrow> child_open e \<Longrightarrow> running_inv (step options e d)"
  by (cases e)
     (simp_all add: child_open_def inv_connection inv_socket_data inv_socket_close
        inv_stream_data inv_stream_end inv_child_data inv_timeout inv_socket_block
        inv_socket_drain)

lemma inv_run: "running_inv d \<Longrightarrow> list_all child_open es \<Longrightarrow> running_inv (run options es d)"
  unfolding run_def by (induction es arbitrary: d) (simp_all add: inv_step)

lemma writable_finish:
  "writable (sock_destroy c (sock_end c data ss)) s = (s \<noteq> c \<and> writable ss s)"
  by (cases "s = c")
     (auto simp add: writable_def sock_destroy_other sock_end_other ended_sock_end)

lemma wire_finish:
  "wire (sock_destroy c (sock_end c data ss) ! s)
   = (if s = c \<and> writable ss s then wire (ss ! s) @ data else wire (ss ! s))"
  by (auto simp add: wire_sock_end)

lemma fold_finish_unwritable:
  "\<not> writable ss s \<Longrightarrow>
   wire (fold (\<lambda>client ss. sock_destroy client (sock_end client data ss)) cs ss ! s) = wire (ss ! s)"
proof (induction cs arbitrary: ss)
  case Nil
  show ?case by simp
next
  case (Cons c cs)
  have "\<not> writable (sock_destroy c (sock_end c data ss)) s"
    using Cons.prems by (simp add: writable_finish)
  from Cons.IH [OF this] show ?case
    using Cons.prems by (auto simp add: wire_sock_end)
qed

lemma fold_finish_wire:
  "s \<in> set cs \<Longrightarrow> writable ss s \<Longrightarrow>
   wire (fold (\<lambda>client ss. sock_destroy client (sock_end client data ss)) cs ss ! s) = wire (ss ! s) @ data"
proof (induction cs arbitrary: ss)
  case Nil
  then show ?case by simp
next
  case (Cons c cs)
  show ?case
  proof (cases "c = s")
    case True
    have "\<not> writable (sock_destroy c (sock_end c data ss)) s"
      using True by (simp add: writable_finish)
    from fold_finish_unwritable [OF this] show ?thesis
      using True Cons.prems by (auto simp add: wire_sock_end)
  next
    case False
    then have "s \<in> set cs" using Cons.prems by simp
    moreover have "writable (sock_destroy c (sock_end c data ss)) s"
      using False Cons.prems by (simp add: writable_finish)
    ultimately show ?thesis
      using Cons.IH False by (auto simp add: wire_sock_end)
  qed
qed

lemma fold_finish_length [simp]:
  "length (fold (\<lambda>client ss. sock_destroy client (sock_end client data ss)) cs ss) = length ss"
  by (induction cs arbitrary: ss) auto

lemma fold_finish_mono:
  "s < length ss \<Longrightarrow> ended (ss ! s) \<and> destroyed (ss ! s) \<Longrightarrow>
   ended (fold (\<lambda>client ss. sock_destroy client (sock_end client data ss)) cs ss ! s)
   \<and> destroyed (fold (\<lambda>client ss. sock_destroy client (sock_end client data ss)) cs ss ! s)"
proof (induction cs arbitrary: ss)
  case Nil
  then show ?case by simp
next
  case (Cons c cs)
  have "ended (sock_destroy c (sock_end c data ss) ! s) \<and> destroyed (sock_destroy c (sock_end c data ss) ! s)"
    using Cons.prems by (simp add: destroyed_sock_destroy ended_sock_end)
  with Cons.IH [of "sock_destroy c (sock_end c data ss)"] Cons.prems(1) show ?case by simp
qed

lemma fold_finish_closed:
  "s \<in> set cs \<Longrightarrow> s < length ss \<Longrightarrow>
   ended (fold (\<lambda>client ss. sock_destroy client (sock_end client data ss)) cs ss ! s)
   \<and> destroyed (fold (\<lambda>client ss. sock_destroy client (sock_end client data ss)) cs ss ! s)"
proof (induction cs arbitrary: ss)
  case Nil
  then show ?case by simp
next
  case (Cons c cs)
  show ?case
  proof (cases "c = s")
    case True
    have "ended (sock_destroy c (sock_end c data ss) ! s) \<and> destroyed (sock_destroy c (sock_end c data ss) ! s)"
      using True Cons.prems by (simp add: destroyed_sock_destroy ended_sock_end)
    with fold_finish_mono [of s "sock_destroy c (sock_end c data ss)"] Cons.prems show ?thesis by simp
  next
    case False
    then have "s \<in> set cs" using Cons.prems by simp
    with Cons.IH [of "sock_destroy c (sock_end c data ss)"] Cons.prems show ?thesis by simp
  qed
qed

lemma flushed_finish:
  "flushed (sock_destroy c (sock_end c data ss) ! s)
   = (if s = c \<and> writable ss s \<and> \<not> blocked (ss ! s) \<and> queue (ss ! s) = []
      then flushed (ss ! s) @ data else flushed (ss ! s))"
  by (auto simp add: flushed_sock_end)

lemma fold_finish_flushed_unwritable:
  "\<not> writable ss s \<Longrightarrow>
   flushed (fold (\<lambda>client ss. sock_destroy client (sock_end client data ss)) cs ss ! s) = flushed (ss ! s)"
proof (induction cs arbitrary: ss)
  case Nil
  show ?case by simp
next
  case (Cons c cs)
  have "\<not> writable (sock_destroy c (sock_end c data ss)) s"
    using Cons.prems by (simp add: writable_finish)
  from Cons.IH [OF this] show ?case
    using Cons.prems by (auto simp add: flushed_sock_end)
qed

lemma fold_finish_flushed:
  "s \<in> set cs \<Longrightarrow> writable ss s \<Longrightarrow>
   flushed (fold (\<lambda>client ss. sock_destroy client (sock_end client data ss)) cs ss ! s)
   = (if \<not> blocked (ss ! s) \<and> queue (ss ! s) = [] then flushed (ss ! s) @ data else flushed (ss ! s))"
proof (induction cs arbitrary: ss)
  case Nil
  then show ?case by simp
next
  case (Cons c cs)
  show ?case
  proof (cases "c = s")
    case True
    have "\<not> writable (sock_destroy c (sock_end c data ss)) s"
      using True by (simp add: writable_finish)
    from fold_finish_flushed_unwritable [OF this] show ?thesis
      using True Cons.prems by (auto simp add: flushed_sock_end)
  next
    case False
    then have "s \<in> set cs" using Cons.prems by simp
    moreover have "writable (sock_destroy c (sock_end c data ss)) s"
      using False Cons.prems by (simp add: writable_finish)
    ultimately show ?thesis
      using Cons.IH [of "sock_destroy c (sock_end c data ss)"] False
      by (simp add: sock_destroy_other sock_end_other)
  qed
qed

lemma step_kill:
  "exited d = None \<Longrightarrow> s < length (sockets d) \<Longrightarrow> \<not> destroyed (sockets d ! s) \<Longrightarrow>
   step options (SocketData s (KILL # rest)) d = d\<lparr>treekills := Suc (treekills d)\<rparr>"
  by (simp add: step_def on_socket_data_def)

lemma step_talk:
  "exited d = None \<Longrightarrow> s < length (sockets d) \<Longrightarrow> \<not> destroyed (sockets d ! s) \<Longrightarrow>
   step options (SocketData s (TALK # rest)) d = d\<lparr>streams := streams d @ [(s, bl d)]\<rparr>"
  by (simp add: step_def on_socket_data_def KILL_def TALK_def)

lemma remove_nth_last [simp]: "remove_nth (length xs) (xs @ [x]) = xs"
  by (simp add: remove_nth_def)

lemma step_child_close_exit:
  "exited d = None \<Longrightarrow> \<not> (wait options \<and> clients d = []) \<Longrightarrow>
   step options (ChildClose code signal) d =
     d\<lparr>sockets := fold (\<lambda>client ss. sock_destroy client (sock_end client [uint8 (code_or_1 code)] ss))
                   (clients d) (sockets d),
       listening := False, exited := Some (code_or_1 code)\<rparr>"
  by (auto simp add: step_def on_child_close_def)

lemma step_child_close_wait:
  "exited d = None \<Longrightarrow> wait options \<Longrightarrow> clients d = [] \<Longrightarrow>
   step options (ChildClose code signal) d = d\<lparr>childExitCode := Some code, childSignal := Some signal\<rparr>"
  by (simp add: step_def on_child_close_def)

lemma uint8_in_range: "0 \<le> n \<Longrightarrow> n < 256 \<Longrightarrow> uint (uint8 n) = n"
  by (simp add: uint8_def uint_word_of_int)

lemmas daemon_eval =
  run_def step_def on_socket_data_def on_stream_end_def on_socket_close_def on_child_data_def
  on_child_close_def on_timeout_def spawnCommand_def new_socket_def sock_write_def sock_end_def
  sock_destroy_def sock_block_def sock_drain_def writable_def set_add_def set_delete_def
  unpipe_def remove_nth_def KILL_def TALK_def received_def delivered_def onData_def
  onData_cap_def Let_def daemon_options_def code_or_1_def nullish_or_1_def uint8_def

subsection \<open>Shutdown when the child terminates\<close>

text \<open>
  What the child's \<^verbatim>\<open>'close'\<close> callback does. Take any state the daemon reaches while the
  child runs, and let the child terminate there with \<open>code\<close> and \<open>signal\<close>. Unless the
  daemon is in wait mode with no live client, it exits with the child's exit code (1 when
  the code is \<^verbatim>\<open>null\<close>, the child having been killed by a signal), the server is closed,
  and to every live client exactly one more byte has been written, the trailer
  \<^verbatim>\<open>Uint8Array([code ?? 1])\<close>, and its socket is ended and destroyed. The trailer reaches
  the client when the system takes the write at once and nothing waits before it;
  otherwise \<^verbatim>\<open>destroy()\<close> discards it, and the client gets nothing more. The trailer byte is
  the exit code itself for the codes 0 to 255.
\<close>

lemma child_close_writes_trailer:
  assumes "list_all child_open es"
    and "d = run options es spawnCommand"
    and "\<not> (wait options \<and> clients d = [])"
  shows "exited (step options (ChildClose code signal) d) = Some (code_or_1 code)
     \<and> \<not> listening (step options (ChildClose code signal) d)
     \<and> (\<forall>s \<in> set (clients d).
           received (step options (ChildClose code signal) d) s = received d s @ [uint8 (code_or_1 code)]
           \<and> delivered (step options (ChildClose code signal) d) s
               = (if \<not> blocked (sockets d ! s) \<and> queue (sockets d ! s) = []
                  then delivered d s @ [uint8 (code_or_1 code)] else delivered d s)
           \<and> ended (sockets (step options (ChildClose code signal) d) ! s)
           \<and> destroyed (sockets (step options (ChildClose code signal) d) ! s))
     \<and> (0 \<le> code_or_1 code \<and> code_or_1 code < 256 \<longrightarrow> uint (uint8 (code_or_1 code)) = code_or_1 code)"
proof -
  have inv: "running_inv d"
    using assms(1,2) by (simp add: inv_run running_inv_spawn)
  then have ex: "exited d = None"
    by (simp add: running_inv_def)
  note st = step_child_close_exit [OF ex assms(3), of code signal]
  have live: "s < length (sockets d) \<and> writable (sockets d) s" if "s \<in> set (clients d)" for s
    using inv that by (simp add: running_inv_def writable_def)
  have "received (step options (ChildClose code signal) d) s = received d s @ [uint8 (code_or_1 code)]
        \<and> delivered (step options (ChildClose code signal) d) s
            = (if \<not> blocked (sockets d ! s) \<and> queue (sockets d ! s) = []
               then delivered d s @ [uint8 (code_or_1 code)] else delivered d s)
        \<and> ended (sockets (step options (ChildClose code signal) d) ! s)
        \<and> destroyed (sockets (step options (ChildClose code signal) d) ! s)"
    if "s \<in> set (clients d)" for s
    using that live [OF that]
    by (simp add: st received_def delivered_def fold_finish_wire fold_finish_flushed fold_finish_closed)
  then show ?thesis
    by (simp add: st uint8_in_range)
qed

text \<open>
  Claim C4. A live client does not always get the trailer. A client attaches and is sent
  the child's output \<open>7\<close>; the system then stops taking the bytes of its socket at once
  (a write is pending); the child exits with code 3. The \<^verbatim>\<open>'close'\<close> callback writes the
  trailer \<open>3\<close> with \<^verbatim>\<open>client.end\<close> and calls \<^verbatim>\<open>client.destroy()\<close> and \<^verbatim>\<open>process.exit(3)\<close>
  in the same turn: the daemon has exited with 3, the socket is destroyed, and the client
  has got \<open>7\<close> and no trailer.
\<close>

theorem trailer_lost_on_destroy:
  "received (run daemon_options
      [Connection, SocketData 0 [TALK], StreamEnd 0, ChildData Stdout [7], SocketBlock 0,
       ChildClose (Some 3) None] spawnCommand) 0 = [7, 3]
   \<and> delivered (run daemon_options
      [Connection, SocketData 0 [TALK], StreamEnd 0, ChildData Stdout [7], SocketBlock 0,
       ChildClose (Some 3) None] spawnCommand) 0 = [7]
   \<and> destroyed (sockets (run daemon_options
      [Connection, SocketData 0 [TALK], StreamEnd 0, ChildData Stdout [7], SocketBlock 0,
       ChildClose (Some 3) None] spawnCommand) ! 0)
   \<and> exited (run daemon_options
      [Connection, SocketData 0 [TALK], StreamEnd 0, ChildData Stdout [7], SocketBlock 0,
       ChildClose (Some 3) None] spawnCommand) = Some 3"
  by (simp add: daemon_eval)

text \<open>
  What a chunk that starts with the \<open>KILL\<close> byte does. In any state the daemon reaches
  while the child runs, such a chunk, from any connected client, makes the daemon call
  \<^verbatim>\<open>treekill\<close> on the child's pid (the primitive that kills the child's whole process tree)
  and changes nothing else: no socket is written to, so the sender gets no reply. When the
  child's \<^verbatim>\<open>'close'\<close> follows, the trailer is written to every live client and its socket
  is ended and destroyed.
\<close>

lemma kill_then_close_writes_trailer:
  assumes "list_all child_open es"
    and "d = run options es spawnCommand"
    and "s < length (sockets d)" and "\<not> destroyed (sockets d ! s)"
    and "d1 = step options (SocketData s (KILL # rest)) d"
    and "d2 = step options (ChildClose code signal) d1"
  shows "treekills d1 = Suc (treekills d) \<and> sockets d1 = sockets d
     \<and> (\<forall>c \<in> set (clients d).
           received d2 c = received d c @ [uint8 (code_or_1 code)]
           \<and> ended (sockets d2 ! c) \<and> destroyed (sockets d2 ! c))"
proof -
  have inv: "running_inv d"
    using assms(1,2) by (simp add: inv_run running_inv_spawn)
  then have ex: "exited d = None"
    by (simp add: running_inv_def)
  have d1: "d1 = d\<lparr>treekills := Suc (treekills d)\<rparr>"
    using assms(5) by (simp add: step_kill [OF ex assms(3,4)])
  have trailer: "received d2 c = received d c @ [uint8 (code_or_1 code)]
        \<and> ended (sockets d2 ! c) \<and> destroyed (sockets d2 ! c)"
    if c: "c \<in> set (clients d)" for c
  proof -
    have live: "c < length (sockets d) \<and> writable (sockets d) c"
      using inv c by (simp add: running_inv_def writable_def)
    have "\<not> (wait options \<and> clients d1 = [])"
      using c d1 by auto
    moreover have "exited d1 = None"
      using ex d1 by simp
    ultimately have "d2 = d1\<lparr>sockets := fold (\<lambda>client ss. sock_destroy client (sock_end client [uint8 (code_or_1 code)] ss))
                   (clients d1) (sockets d1),
       listening := False, exited := Some (code_or_1 code)\<rparr>"
      using assms(6) by (simp add: step_child_close_exit)
    then show ?thesis
      using c live d1 by (simp add: received_def fold_finish_wire fold_finish_closed)
  qed
  show ?thesis
    using d1 trailer by simp
qed

text \<open>
  Claim C5. A \<open>KILL\<close> byte a client sends does not always kill, and the trailer does not
  always arrive. First: a client writes \<open>TALK\<close> and then \<open>KILL\<close>, and the daemon reads the
  two bytes as one chunk; the callback looks at \<^verbatim>\<open>buffer[0]\<close> only, so \<^verbatim>\<open>treekill\<close> is not
  called. Second: client 0 is attached and has been sent the output \<open>7\<close>, a write to its
  socket is pending, and client 1 sends \<open>KILL\<close>; \<^verbatim>\<open>treekill\<close> is called once, the child closes
  with no code and the signal \<^verbatim>\<open>SIGTERM\<close>, the trailer \<open>1\<close> is written to client 0, its socket
  is destroyed and the daemon exits with 1 in the same turn: client 0 has got \<open>7\<close> and no
  trailer.
\<close>

theorem kill_does_not_reach_every_client:
  "treekills (run daemon_options [Connection, SocketData 0 [TALK, KILL]] spawnCommand) = 0
   \<and> treekills (run daemon_options
        [Connection, SocketData 0 [TALK], StreamEnd 0, ChildData Stdout [7], SocketBlock 0,
         Connection, SocketData 1 [KILL], ChildClose None (Some ''SIGTERM'')] spawnCommand) = 1
   \<and> received (run daemon_options
        [Connection, SocketData 0 [TALK], StreamEnd 0, ChildData Stdout [7], SocketBlock 0,
         Connection, SocketData 1 [KILL], ChildClose None (Some ''SIGTERM'')] spawnCommand) 0 = [7, 1]
   \<and> delivered (run daemon_options
        [Connection, SocketData 0 [TALK], StreamEnd 0, ChildData Stdout [7], SocketBlock 0,
         Connection, SocketData 1 [KILL], ChildClose None (Some ''SIGTERM'')] spawnCommand) 0 = [7]
   \<and> destroyed (sockets (run daemon_options
        [Connection, SocketData 0 [TALK], StreamEnd 0, ChildData Stdout [7], SocketBlock 0,
         Connection, SocketData 1 [KILL], ChildClose None (Some ''SIGTERM'')] spawnCommand) ! 0)
   \<and> exited (run daemon_options
        [Connection, SocketData 0 [TALK], StreamEnd 0, ChildData Stdout [7], SocketBlock 0,
         Connection, SocketData 1 [KILL], ChildClose None (Some ''SIGTERM'')] spawnCommand) = Some 1"
  by (simp add: daemon_eval)

subsection \<open>A snapshot draining into its socket\<close>

lemma draining_step:
  assumes "draining i s goal d d'" and "drain_event i e"
    and "s \<notin> set (stdout_pipes d)" and "s \<notin> set (stderr_pipes d)"
  shows "draining i s goal d (step options e d')"
proof (cases e)
  case (ChildData f data)
  have "wire (fold (\<lambda>p. sock_write p data) ps (sockets d') ! s) = wire (sockets d' ! s)"
    if "s \<notin> set ps" for ps
    using assms(1) that by (simp add: draining_def fold_sock_write_wire)
  then show ?thesis
    using assms ChildData
    by (cases f) (simp_all add: draining_def step_def on_child_data_def)
next
  case (StreamData j n)
  then have j: "j = i" using assms(2) by (simp add: drain_event_def)
  obtain s' rest where sr: "streams d' ! i = (s', rest)" by (cases "streams d' ! i")
  then have s': "s' = s" using assms(1) by (simp add: draining_def)
  show ?thesis
    using assms(1) StreamData j sr s'
    by (simp add: draining_def step_def wire_sock_write)
qed (use assms(2) in \<open>simp_all add: drain_event_def\<close>)

lemma draining_run:
  assumes "draining i s goal d d'" and "list_all (drain_event i) es"
    and "s \<notin> set (stdout_pipes d)" and "s \<notin> set (stderr_pipes d)"
  shows "draining i s goal d (run options es d')"
  using assms unfolding run_def
  by (induction es arbitrary: d') (simp_all add: draining_step)

lemma draining_start:
  assumes "exited d = None" and "writable (sockets d) s"
  shows "draining (length (streams d)) s (wire (sockets d ! s) @ bl d)
           (d\<lparr>streams := streams d @ [(s, bl d)]\<rparr>) (d\<lparr>streams := streams d @ [(s, bl d)]\<rparr>)"
  using assms by (simp add: draining_def)

lemma stream_end_exit:
  assumes "draining i s goal d0 d" and "childExitCode d = Some code" and "childSignal d = Some signal"
    and "clients d = []"
  shows "received (step options (StreamEnd i) d) s
           = goal @ bytes_of (stopped_line (Some code) (Some signal)) @ [uint8 (code_or_1 code)]
       \<and> ended (sockets (step options (StreamEnd i) d) ! s)
       \<and> exited (step options (StreamEnd i) d) = None
       \<and> listening (step options (StreamEnd i) d) = listening d
       \<and> timers (step options (StreamEnd i) d) = timers d @ [(0, CloseAndExit (code_or_1 code))]"
proof -
  obtain s' rest where sr: "streams d ! i = (s', rest)" by (cases "streams d ! i")
  then have s': "s' = s" and total: "wire (sockets d ! s) @ rest = goal"
    using assms(1) by (simp_all add: draining_def)
  have w: "writable (sockets d) s" and i: "i < length (streams d)" and ex: "exited d = None"
    and len: "s < length (sockets d)"
    using assms(1) by (simp_all add: draining_def writable_def)
  show ?thesis
    using i ex sr s' total w len assms(2,3,4)
    by (simp add: step_def on_stream_end_def Let_def received_def nullish_or_1_def
          wire_sock_end wire_sock_write ended_sock_end)
qed

lemma stream_end_live:
  assumes "draining i s goal d0 d" and "childExitCode d = None" and "childSignal d = None"
  shows "received (step options (StreamEnd i) d) s = goal
       \<and> writable (sockets (step options (StreamEnd i) d)) s
       \<and> exited (step options (StreamEnd i) d) = None
       \<and> stdout_pipes (step options (StreamEnd i) d) = stdout_pipes d @ [s]
       \<and> stderr_pipes (step options (StreamEnd i) d) = stderr_pipes d @ [s]
       \<and> clients (step options (StreamEnd i) d) = set_add s (clients d)"
proof -
  obtain s' rest where sr: "streams d ! i = (s', rest)" by (cases "streams d ! i")
  then have s': "s' = s" and total: "wire (sockets d ! s) @ rest = goal"
    using assms(1) by (simp_all add: draining_def)
  have w: "writable (sockets d) s" and i: "i < length (streams d)" and ex: "exited d = None"
    using assms(1) by (simp_all add: draining_def)
  show ?thesis
    using i ex sr s' total w assms(2,3)
    by (simp add: step_def on_stream_end_def Let_def received_def wire_sock_write)
qed

lemma live_run:
  assumes "exited d = None" and "writable (sockets d) s"
    and "count_list (stdout_pipes d) s = 1" and "count_list (stderr_pipes d) s = 1"
    and "list_all child_data_event es"
  shows "received (run options es d) s = received d s @ child_output es"
  using assms
proof (induction es arbitrary: d)
  case Nil
  show ?case by (simp add: run_def child_output_def)
next
  case (Cons e es)
  then obtain f data where e: "e = ChildData f data"
    by (cases e) (simp_all add: child_data_event_def)
  let ?d = "step options e d"
  have st: "?d = on_child_data f data d"
    using Cons.prems(1) e by (simp add: step_def)
  have "received (run options es ?d) s = received ?d s @ child_output es"
  proof (rule Cons.IH)
    show "exited ?d = None" using Cons.prems(1) st by (simp add: on_child_data_def)
    show "writable (sockets ?d) s" using Cons.prems(2) st by (simp add: on_child_data_def)
    show "count_list (stdout_pipes ?d) s = 1" using Cons.prems(3) st by (simp add: on_child_data_def)
    show "count_list (stderr_pipes ?d) s = 1" using Cons.prems(4) st by (simp add: on_child_data_def)
    show "list_all child_data_event es" using Cons.prems(5) by simp
  qed
  moreover have "received ?d s = received d s @ data"
    using Cons.prems(2,3,4) st
    by (cases f) (simp_all add: on_child_data_def received_def fold_sock_write_wire)
  moreover have "run options (e # es) d = run options es ?d"
    by (simp add: run_def)
  ultimately show ?case
    by (simp add: child_output_def e)
qed

lemma run_append: "run options (es @ es') d = run options es' (run options es d)"
  by (simp add: run_def)

lemma run_Cons: "run options (e # es) d = run options es (step options e d)"
  by (simp add: run_def)

lemma run_Nil: "run options [] d = d"
  by (simp add: run_def)

lemma reachable_inv:
  "list_all child_open es \<Longrightarrow> running_inv (run options es spawnCommand)"
  by (simp add: inv_run running_inv_spawn)

lemma fresh_socket_unpiped:
  assumes "running_inv d"
  shows "length (sockets d) \<notin> set (stdout_pipes d) \<and> length (sockets d) \<notin> set (stderr_pipes d)"
  using assms by (auto simp add: running_inv_def)

subsection \<open>Wait mode: the child terminates before anyone attached\<close>

lemma flowing_step:
  assumes "flowing (sockets d) s" and "e \<noteq> SocketBlock s"
  shows "flowing (sockets (step options e d)) s"
  using assms
  by (cases e)
     (auto simp add: step_def on_socket_data_def on_stream_end_def on_socket_close_def
        on_child_data_def on_child_close_def on_timeout_def Let_def flowing_sock_write
        flowing_sock_end flowing_sock_destroy flowing_sock_block flowing_sock_drain
        flowing_append flowing_fold_write flowing_fold_end flowing_fold_finish
        split: list.splits prod.splits timer_action.splits)

lemma waiting_inv_start:
  assumes "running_inv d" and "clients d = []"
  shows "waiting_inv code signal (bl d) (d\<lparr>childExitCode := Some code, childSignal := Some signal\<rparr>)"
  using assms by (simp add: running_inv_def waiting_inv_def)

lemma waiting_step:
  assumes "waiting_inv code signal buf d" and "waiting_event e"
  shows "waiting_inv code signal buf (step options e d)"
proof (cases e)
  case Connection
  then show ?thesis
    using assms(1) by (auto simp add: waiting_inv_def step_def)
next
  case (SocketData s buffer)
  then show ?thesis
    using assms(1) by (auto simp add: waiting_inv_def step_def on_socket_data_def split: list.splits)
next
  case (SocketClose s)
  then show ?thesis
    using assms(1)
    by (auto simp add: waiting_inv_def step_def on_socket_close_def Let_def set_delete_def)
next
  case (StreamData i n)
  then show ?thesis
    using assms(1) by (auto simp add: waiting_inv_def step_def split: prod.splits)
next
  case (Timeout i)
  show ?thesis
  proof (cases "i < length (timers d)")
    case False
    then show ?thesis using assms(1) Timeout by (simp add: step_def waiting_inv_def)
  next
    case True
    have sub: "set (remove_nth i (timers d)) \<subseteq> set (timers d)"
      by (rule set_remove_nth)
    have "timers d ! i \<in> set (timers d)" using True by simp
    then have nc: "snd (timers d ! i) \<noteq> CloseAndExit c" for c
      using assms(1) by (simp add: waiting_inv_def)
    show ?thesis
    proof (cases "snd (timers d ! i)")
      case ClearJustSpawned
      then show ?thesis using assms(1) Timeout True sub
        by (auto simp add: waiting_inv_def step_def on_timeout_def)
    next
      case (SocketWrite s msg)
      then show ?thesis using assms(1) Timeout True sub
        by (auto simp add: waiting_inv_def step_def on_timeout_def)
    next
      case (CloseAndExit c)
      then show ?thesis using nc by simp
    qed
  qed
next
  case (SocketBlock s)
  then show ?thesis
    using assms(1) by (auto simp add: waiting_inv_def step_def)
next
  case (SocketDrain s)
  then show ?thesis
    using assms(1) by (auto simp add: waiting_inv_def step_def)
qed (use assms(2) in \<open>simp_all add: waiting_event_def\<close>)

lemma waiting_run:
  "waiting_inv code signal buf d \<Longrightarrow> list_all waiting_event es \<Longrightarrow>
   waiting_inv code signal buf (run options es d)"
  unfolding run_def by (induction es arbitrary: d) (simp_all add: waiting_step)

lemma fold_sock_end_length [simp]:
  "length (fold (\<lambda>client. sock_end client data) cs ss) = length ss"
  by (induction cs arbitrary: ss) auto

lemma targets_spawn: "targets_inv spawnCommand"
  by (simp add: targets_inv_def spawnCommand_def)

lemma targets_step: "targets_inv d \<Longrightarrow> targets_inv (step options e d)"
proof (cases e)
  case Connection
  assume "targets_inv d"
  then show ?thesis using Connection
    by (auto simp add: targets_inv_def step_def less_SucI)
next
  case (SocketData s buffer)
  assume "targets_inv d"
  then show ?thesis using SocketData
    by (auto simp add: targets_inv_def step_def on_socket_data_def split: list.splits)
next
  case (SocketClose s)
  assume "targets_inv d"
  then show ?thesis using SocketClose
    by (auto simp add: targets_inv_def step_def on_socket_close_def Let_def)
next
  case (StreamData i n)
  assume a: "targets_inv d"
  show ?thesis
  proof (cases "i < length (streams d)")
    case False
    then show ?thesis using a StreamData by (simp add: step_def)
  next
    case True
    obtain s rest where sr: "streams d ! i = (s, rest)" by (cases "streams d ! i")
    have "(s, rest) \<in> set (streams d)" using True sr by (metis nth_mem)
    then have s: "s < length (sockets d)" using a by (auto simp add: targets_inv_def)
    have "set ((streams d)[i := (s, drop n rest)]) \<subseteq> insert (s, drop n rest) (set (streams d))"
      by (rule set_update_subset_insert)
    then show ?thesis using a StreamData True sr s
      by (auto simp add: targets_inv_def step_def)
  qed
next
  case (StreamEnd i)
  assume a: "targets_inv d"
  show ?thesis
  proof (cases "i < length (streams d)")
    case False
    then show ?thesis using a StreamEnd by (simp add: step_def)
  next
    case True
    obtain s rest where sr: "streams d ! i = (s, rest)" by (cases "streams d ! i")
    have "(s, rest) \<in> set (streams d)" using True sr by (metis nth_mem)
    then have s: "s < length (sockets d)" using a by (auto simp add: targets_inv_def)
    have "set (remove_nth i (streams d)) \<subseteq> set (streams d)"
      by (rule set_remove_nth)
    then show ?thesis using a StreamEnd True sr s
      by (auto simp add: targets_inv_def step_def on_stream_end_def Let_def)
  qed
next
  case (ChildData f data)
  assume "targets_inv d"
  then show ?thesis using ChildData
    by (auto simp add: targets_inv_def step_def on_child_data_def)
next
  case (ChildClose code signal)
  assume "targets_inv d"
  then show ?thesis using ChildClose
    by (auto simp add: targets_inv_def step_def on_child_close_def)
next
  case (Timeout i)
  assume a: "targets_inv d"
  have "set (remove_nth i (timers d)) \<subseteq> set (timers d)"
    by (rule set_remove_nth)
  then show ?thesis using a Timeout
    by (auto simp add: targets_inv_def step_def on_timeout_def split: timer_action.splits)
next
  case (SocketBlock s)
  assume "targets_inv d"
  then show ?thesis using SocketBlock
    by (auto simp add: targets_inv_def step_def)
next
  case (SocketDrain s)
  assume "targets_inv d"
  then show ?thesis using SocketDrain
    by (auto simp add: targets_inv_def step_def)
qed

lemma targets_run: "targets_inv d \<Longrightarrow> targets_inv (run options es d)"
  unfolding run_def by (induction es arbitrary: d) (simp_all add: targets_step)

lemma late_step:
  assumes "late_inv i s goal code signal d" and "late_event s e"
  shows "late_inv i s goal code signal (step options e d)"
proof (cases e)
  case Connection
  have "writable (sockets d @ [new_socket]) s"
    using assms(1) by (simp add: late_inv_def writable_def nth_append)
  moreover have "wire ((sockets d @ [new_socket]) ! s) = wire (sockets d ! s)"
    using assms(1) by (simp add: late_inv_def writable_def nth_append)
  ultimately show ?thesis
    using assms(1) Connection by (simp add: late_inv_def step_def flowing_append)
next
  case (SocketData t buffer)
  then have ts: "t \<noteq> s" using assms(2) by (simp add: late_event_def)
  show ?thesis
    using assms(1) SocketData ts
    by (auto simp add: late_inv_def step_def on_socket_data_def nth_append less_Suc_eq split: list.splits)
next
  case (StreamData j n)
  show ?thesis
  proof (cases "j < length (streams d)")
    case False
    then show ?thesis using assms(1) StreamData by (simp add: step_def)
  next
    case True
    obtain t rest where sr: "streams d ! j = (t, rest)" by (cases "streams d ! j")
    show ?thesis
    proof (cases "j = i")
      case True
      then have t: "t = s" using assms(1) sr by (simp add: late_inv_def)
      show ?thesis
        using assms(1) StreamData \<open>j < length (streams d)\<close> sr t True
        by (auto simp add: late_inv_def step_def wire_sock_write flowing_sock_write nth_list_update)
    next
      case False
      then have t: "t \<noteq> s" using assms(1) sr \<open>j < length (streams d)\<close> by (auto simp add: late_inv_def)
      show ?thesis
        using assms(1) StreamData \<open>j < length (streams d)\<close> sr t False
        by (auto simp add: late_inv_def step_def wire_sock_write flowing_sock_write nth_list_update)
    qed
  qed
next
  case (ChildData f data)
  have "wire (fold (\<lambda>p. sock_write p data) ps (sockets d) ! s) = wire (sockets d ! s)"
    if "s \<notin> set ps" for ps
    using assms(1) that by (simp add: late_inv_def fold_sock_write_wire)
  then show ?thesis
    using assms(1) ChildData
    by (cases f) (simp_all add: late_inv_def step_def on_child_data_def flowing_fold_write)
next
  case (Timeout k)
  show ?thesis
  proof (cases "k < length (timers d)")
    case False
    then show ?thesis using assms(1) Timeout by (simp add: step_def)
  next
    case True
    have sub: "set (remove_nth k (timers d)) \<subseteq> set (timers d)"
      by (rule set_remove_nth)
    have mem: "timers d ! k \<in> set (timers d)" using True by simp
    then have nc: "snd (timers d ! k) \<noteq> CloseAndExit c" for c
      using assms(1) by (simp add: late_inv_def)
    have nw: "snd (timers d ! k) \<noteq> SocketWrite s msg" for msg
      using assms(1) mem by (simp add: late_inv_def)
    show ?thesis
    proof (cases "snd (timers d ! k)")
      case ClearJustSpawned
      then show ?thesis using assms(1) Timeout True sub
        by (auto simp add: late_inv_def step_def on_timeout_def)
    next
      case (SocketWrite t msg)
      then have "t \<noteq> s" using nw by auto
      then show ?thesis using assms(1) Timeout True sub SocketWrite
        by (auto simp add: late_inv_def step_def on_timeout_def wire_sock_write flowing_sock_write)
    next
      case (CloseAndExit c)
      then show ?thesis using nc by simp
    qed
  qed
next
  case (SocketBlock t)
  then have ts: "t \<noteq> s" using assms(2) by (simp add: late_event_def)
  have "writable (sock_block t (sockets d)) s" using assms(1) by (simp add: late_inv_def)
  then show ?thesis
    using assms(1) SocketBlock ts
    by (auto simp add: late_inv_def step_def flowing_sock_block)
next
  case (SocketDrain t)
  show ?thesis
    using assms(1) SocketDrain
    by (auto simp add: late_inv_def step_def flowing_sock_drain)
qed (use assms(2) in \<open>simp_all add: late_event_def\<close>)

lemma late_run:
  "late_inv i s goal code signal d \<Longrightarrow> list_all (late_event s) es \<Longrightarrow>
   late_inv i s goal code signal (run options es d)"
  unfolding run_def by (induction es arbitrary: d) (simp_all add: late_step)

lemma late_draining:
  "late_inv i s goal code signal d \<Longrightarrow> draining i s goal d d"
  by (simp add: late_inv_def draining_def)

lemma stream_end_status_line:
  assumes "draining i s goal d0 d" and "childExitCode d = Some code" and "childSignal d = Some signal"
    and "clients d = []"
  shows "received (step options (StreamEnd i) d) s
           = goal
             @ bytes_of (''[deemon] Daemon was stopped when client attached (exit code ''
                 @ (case code of None \<Rightarrow> ''null'' | Some n \<Rightarrow> show_number n)
                 @ '', signal '' @ (case signal of None \<Rightarrow> ''null'' | Some sg \<Rightarrow> sg)
                 @ '').'' @ [CHR 0x0A])
             @ [uint8 (code_or_1 code)]"
proof -
  have "stopped_line (Some code) (Some signal)
        = ''[deemon] Daemon was stopped when client attached (exit code ''
            @ (case code of None \<Rightarrow> ''null'' | Some n \<Rightarrow> show_number n)
            @ '', signal '' @ (case signal of None \<Rightarrow> ''null'' | Some sg \<Rightarrow> sg)
            @ '').'' @ [CHR 0x0A]"
    by (simp add: stopped_line_def show_code_def show_signal_def split: option.splits)
  with stream_end_exit [OF assms, of options] show ?thesis
    by simp
qed


text \<open>The decimal digits of an exit code.\<close>

lemma show_number_examples: "show_number 0 = ''0'' \<and> show_number 3 = ''3'' \<and> show_number 137 = ''137''"
  by code_simp


subsection \<open>Commands on a connection that is already live\<close>

lemma second_talk_replays:
  "received (run options [Connection, ChildData f x, SocketData 0 (TALK # r1), StreamEnd 0,
       SocketData 0 (TALK # r2), StreamEnd 0] spawnCommand) 0 = onData [] x @ onData [] x"
  by (cases f)
     (simp_all add: run_def step_def on_socket_data_def on_stream_end_def on_child_data_def
        spawnCommand_def new_socket_def sock_write_def writable_def set_add_def remove_nth_def
        KILL_def TALK_def received_def Let_def)

text \<open>
  Claim C10. The \<^verbatim>\<open>'data'\<close> callback of a socket dispatches on the first byte of every
  chunk, whatever came before on the connection. In any state reached while the child
  runs and for a connection \<open>s\<close> that is already live: a chunk starting with \<open>KILL\<close>
  calls \<^verbatim>\<open>treekill\<close>; a chunk starting with \<open>TALK\<close> pipes a new snapshot of the whole
  buffer into the same socket, so that the client is sent the buffer once more after what
  it already received; a chunk starting with any other byte changes nothing. From the
  start: output \<open>x\<close> of the child, then two \<open>TALK\<close> chunks on one connection, and the
  client is sent the buffered \<open>x\<close> twice.
\<close>

theorem later_chunks_dispatched:
  assumes "list_all child_open es" and "d = run options es spawnCommand"
    and "s \<in> set (clients d)"
  shows "step options (SocketData s (KILL # rest)) d = d\<lparr>treekills := Suc (treekills d)\<rparr>
       \<and> received (run options [SocketData s (TALK # rest), StreamEnd (length (streams d))] d) s
           = received d s @ bl d
       \<and> (c \<noteq> KILL \<and> c \<noteq> TALK \<longrightarrow> step options (SocketData s (c # rest)) d = d)
       \<and> received (run options [Connection, ChildData f x, SocketData 0 (TALK # r1), StreamEnd 0,
             SocketData 0 (TALK # r2), StreamEnd 0] spawnCommand) 0 = onData [] x @ onData [] x"
proof -
  have inv: "running_inv d"
    using assms(1,2) by (simp add: reachable_inv)
  then have ex: "exited d = None" and s: "s < length (sockets d)" and nd: "\<not> destroyed (sockets d ! s)"
    and w: "writable (sockets d) s" and ce: "childExitCode d = None" and cs: "childSignal d = None"
    using assms(3) by (simp_all add: running_inv_def writable_def)
  let ?b = "d\<lparr>streams := streams d @ [(s, bl d)]\<rparr>"
  have dr: "draining (length (streams d)) s (wire (sockets d ! s) @ bl d) ?b ?b"
    by (rule draining_start [OF ex w])
  have "received (step options (StreamEnd (length (streams d))) ?b) s = wire (sockets d ! s) @ bl d"
    using stream_end_live [OF dr, of options] ce cs by simp
  then have replay: "received (run options [SocketData s (TALK # rest), StreamEnd (length (streams d))] d) s
           = received d s @ bl d"
    by (simp add: run_Cons run_Nil step_talk [OF ex s nd] received_def)
  have other: "c \<noteq> KILL \<and> c \<noteq> TALK \<longrightarrow> step options (SocketData s (c # rest)) d = d"
    using ex s nd by (simp add: step_def on_socket_data_def)
  show ?thesis
    using step_kill [OF ex s nd, of options rest] replay other second_talk_replays [of options f x r1 r2]
    by blast
qed

theorem later_chunks_dispatched_witness:
  "treekills (step daemon_options (SocketData 0 [KILL])
      (run daemon_options [Connection, ChildData Stdout [97], SocketData 0 [TALK], StreamEnd 0] spawnCommand)) = 1
   \<and> received (run daemon_options [SocketData 0 [TALK], StreamEnd 0]
      (run daemon_options [Connection, ChildData Stdout [97], SocketData 0 [TALK], StreamEnd 0] spawnCommand)) 0
     = [97, 97]"
proof -
  let ?es = "[Connection, ChildData Stdout [97], SocketData 0 [TALK], StreamEnd 0]"
  let ?d = "run daemon_options ?es spawnCommand"
  have h1: "list_all child_open ?es"
    by (simp add: child_open_def)
  have h3: "0 \<in> set (clients ?d)"
    by (simp add: daemon_eval)
  have f: "treekills ?d = 0" "length (streams ?d) = 0" "received ?d 0 = [97]" "bl ?d = [97]"
    by (simp_all add: daemon_eval)
  from later_chunks_dispatched [OF h1 refl h3, of "[]"] show ?thesis
    by (simp add: f)
qed

subsection \<open>The handoff from the replay to the live output\<close>

text \<open>
  What a client that attaches while the child runs is sent: the snapshot of the buffer
  taken when its \<open>TALK\<close> arrived, then the output the child produces after the snapshot's
  \<^verbatim>\<open>'end'\<close>. The output of the child in \<open>drain\<close>, produced while the snapshot drains, goes
  to the buffer and to the clients that are already live, and is not sent to this client:
  its socket is piped to the child only in the \<^verbatim>\<open>'end'\<close> callback (lines 114-115).
\<close>

lemma talk_handoff:
  assumes "list_all child_open es" and "d = run options es spawnCommand"
    and "s = length (sockets d)" and "i = length (streams d)"
    and "list_all (drain_event i) drain" and "list_all child_data_event live"
  shows "received (run options (Connection # SocketData s (TALK # rest) # drain @ StreamEnd i # live) d) s
         = bl d @ child_output live"
proof -
  have inv: "running_inv d"
    using assms(1,2) by (simp add: reachable_inv)
  then have ex: "exited d = None" and li: "listening d"
    and ce: "childExitCode d = None" and cs: "childSignal d = None"
    by (simp_all add: running_inv_def)
  define a where "a = d\<lparr>sockets := sockets d @ [new_socket]\<rparr>"
  have a: "step options Connection d = a"
    using ex li by (simp add: step_def a_def)
  have exa: "exited a = None" and wa: "writable (sockets a) s"
    and sa: "s < length (sockets a)" and nda: "\<not> destroyed (sockets a ! s)"
    using ex assms(3) by (simp_all add: a_def writable_def new_socket_def)
  define b where "b = a\<lparr>streams := streams a @ [(s, bl a)]\<rparr>"
  have b: "step options (SocketData s (TALK # rest)) a = b"
    by (simp add: step_talk [OF exa sa nda] b_def)
  have ia: "i = length (streams a)" and bla: "bl a = bl d" and wire_a: "wire (sockets a ! s) = []"
    using assms(3,4) by (simp_all add: a_def new_socket_def)
  have "draining i s (wire (sockets a ! s) @ bl a) b b"
    unfolding ia b_def by (rule draining_start [OF exa wa])
  then have dr0: "draining i s (bl d) b b"
    by (simp add: bla wire_a)
  have unp: "s \<notin> set (stdout_pipes b)" "s \<notin> set (stderr_pipes b)"
    using fresh_socket_unpiped [OF inv] assms(3) by (simp_all add: a_def b_def)
  define c where "c = run options drain b"
  have dr: "draining i s (bl d) b c"
    unfolding c_def using dr0 assms(5) unp by (simp add: draining_run)
  have cfacts: "childExitCode c = None" "childSignal c = None"
    "stdout_pipes c = stdout_pipes b" "stderr_pipes c = stderr_pipes b"
    using dr ce cs by (simp_all add: draining_def a_def b_def)
  define e where "e = step options (StreamEnd i) c"
  note fin = stream_end_live [OF dr cfacts(1,2), of options, folded e_def]
  have "received (run options live e) s = received e s @ child_output live"
  proof (rule live_run)
    show "exited e = None" and "writable (sockets e) s" using fin by simp_all
    show "count_list (stdout_pipes e) s = 1" using fin cfacts(3) unp(1) by simp
    show "count_list (stderr_pipes e) s = 1" using fin cfacts(4) unp(2) by simp
    show "list_all child_data_event live" by (rule assms(6))
  qed
  then show ?thesis
    using fin by (simp add: run_Cons run_append a b c_def e_def)
qed

text \<open>
  Claim C1 on the code. One byte \<open>a\<close> is buffered; a client connects and sends \<open>TALK\<close>;
  the child writes \<open>b\<close> before the snapshot's \<^verbatim>\<open>'end'\<close>, and \<open>c\<close> after it. The client is
  sent \<open>a\<close> and \<open>c\<close>: the byte \<open>b\<close>, produced after the snapshot was taken, is dropped,
  although the buffer holds all three.
\<close>

theorem talk_drops_output_during_replay:
  "received (run daemon_options
       [Connection, ChildData Stdout [0x61], SocketData 0 [TALK], ChildData Stdout [0x62],
        StreamEnd 0, ChildData Stdout [0x63]] spawnCommand) 0 = [0x61, 0x63]
   \<and> bl (run daemon_options
       [Connection, ChildData Stdout [0x61], SocketData 0 [TALK], ChildData Stdout [0x62],
        StreamEnd 0, ChildData Stdout [0x63]] spawnCommand) = [0x61, 0x62, 0x63]"
  by (simp add: daemon_eval)

subsection \<open>The buffer an attaching client is sent\<close>

lemma child_output_Cons:
  "child_output (e # es) = (case e of ChildData f data \<Rightarrow> data | _ \<Rightarrow> []) @ child_output es"
  by (simp add: child_output_def)

lemma bl_step:
  assumes "running_inv d" and "length (bl d) \<le> 100000000" and "child_open e"
  shows "bl (step options e d) = window 100000000 (bl d @ child_output [e])"
proof -
  have ex: "exited d = None"
    using assms(1) by (simp add: running_inv_def)
  have short: "window 100000000 (bl d) = bl d"
    using assms(2) by (rule window_short)
  show ?thesis
  proof (cases e)
    case (ChildData f data)
    then show ?thesis
      using ex by (simp add: step_def on_child_data_def onData_def onData_cap_window child_output_def)
  next
    case (SocketData s buffer)
    then show ?thesis
      using ex short by (simp add: step_def on_socket_data_def child_output_def split: list.splits)
  next
    case (SocketClose s)
    then show ?thesis
      using ex short by (simp add: step_def on_socket_close_def Let_def child_output_def)
  next
    case (StreamData i n)
    then show ?thesis
      using ex short by (simp add: step_def child_output_def split: prod.splits)
  next
    case (StreamEnd i)
    then show ?thesis
      using ex short
      by (simp add: step_def on_stream_end_def Let_def child_output_def split: prod.splits)
  next
    case (Timeout i)
    then show ?thesis
      using ex short
      by (simp add: step_def on_timeout_def child_output_def split: timer_action.splits)
  next
    case Connection
    then show ?thesis
      using ex short by (simp add: step_def child_output_def)
  next
    case (SocketBlock s)
    then show ?thesis
      using ex short by (simp add: step_def child_output_def)
  next
    case (SocketDrain s)
    then show ?thesis
      using ex short by (simp add: step_def child_output_def)
  next
    case (ChildClose code signal)
    then show ?thesis
      using assms(3) by (simp add: child_open_def)
  qed
qed

lemma bl_run:
  assumes "running_inv d" and "length (bl d) \<le> 100000000" and "list_all child_open es"
  shows "bl (run options es d) = window 100000000 (bl d @ child_output es)"
  using assms
proof (induction es arbitrary: d)
  case Nil
  then show ?case by (simp add: run_def child_output_def window_short)
next
  case (Cons e es)
  have e: "child_open e" and es: "list_all child_open es"
    using Cons.prems(3) by simp_all
  let ?d = "step options e d"
  have b: "bl ?d = window 100000000 (bl d @ child_output [e])"
    by (rule bl_step [OF Cons.prems(1,2) e])
  then have len: "length (bl ?d) \<le> 100000000"
    by (simp add: length_window)
  have "bl (run options es ?d) = window 100000000 (bl ?d @ child_output es)"
    by (rule Cons.IH [OF inv_step [OF Cons.prems(1) e] len es])
  also have "\<dots> = window 100000000 ((bl d @ child_output [e]) @ child_output es)"
    by (simp only: b window_window_append)
  also have "\<dots> = window 100000000 (bl d @ child_output (e # es))"
    by (simp add: child_output_def)
  finally show ?case
    by (simp add: run_Cons)
qed

text \<open>
  Claim C8. Starting from the empty buffer, after any sequence of chunks of child output
  has been appended, the buffer is no longer than the capacity and holds exactly the most
  recent capacity-many bytes of everything the child produced (all of it while that is
  shorter). This holds for the 100 MB cap of \<^verbatim>\<open>part_001\<close> and for the 1 MB cap of
  \<^verbatim>\<open>src/src/main.ts\<close>. In the daemon: after any events during which the child runs, the
  buffer is that window of the child's whole output, and a client that connects then and
  sends \<open>TALK\<close> is sent, up to the snapshot's \<^verbatim>\<open>'end'\<close>, exactly that window and no older
  byte.
\<close>

theorem output_buffer_window:
  "length (foldl onData [] chunks) \<le> 100000000
   \<and> foldl onData [] chunks = window 100000000 (concat chunks)
   \<and> length (foldl onData_main_ts [] chunks) \<le> 1000000
   \<and> foldl onData_main_ts [] chunks = window 1000000 (concat chunks)
   \<and> (list_all child_open es \<longrightarrow>
        bl (run options es spawnCommand) = window 100000000 (child_output es))
   \<and> (list_all child_open es
        \<and> list_all (drain_event (length (streams (run options es spawnCommand)))) drain \<longrightarrow>
        received
          (run options
             (Connection # SocketData (length (sockets (run options es spawnCommand))) (TALK # rest)
                # drain @ [StreamEnd (length (streams (run options es spawnCommand)))])
             (run options es spawnCommand))
          (length (sockets (run options es spawnCommand)))
        = window 100000000 (child_output es))"
proof -
  have buf: "bl (run options es spawnCommand) = window 100000000 (child_output es)"
    if "list_all child_open es"
    using bl_run [OF running_inv_spawn _ that, of options] by (simp add: spawnCommand_def)
  have snap: "received
          (run options
             (Connection # SocketData (length (sockets (run options es spawnCommand))) (TALK # rest)
                # drain @ [StreamEnd (length (streams (run options es spawnCommand)))])
             (run options es spawnCommand))
          (length (sockets (run options es spawnCommand)))
        = window 100000000 (child_output es)"
    if a: "list_all child_open es"
      and b: "list_all (drain_event (length (streams (run options es spawnCommand)))) drain"
    using talk_handoff [OF a refl refl refl b, of "[]" rest] buf [OF a]
    by (simp add: child_output_def)
  have caps: "length (foldl onData [] chunks) \<le> 100000000
   \<and> foldl onData [] chunks = window 100000000 (concat chunks)
   \<and> length (foldl onData_main_ts [] chunks) \<le> 1000000
   \<and> foldl onData_main_ts [] chunks = window 1000000 (concat chunks)"
    by (simp add: onData_def onData_main_ts_def foldl_onData_cap length_window)
  show ?thesis
    using caps buf snap by blast
qed

theorem output_buffer_window_witness:
  "foldl onData [] [[1, 2], [3]] = [1, 2, 3]
   \<and> bl (run daemon_options [ChildData Stdout [1, 2], Connection, ChildData Stderr [3]] spawnCommand) = [1, 2, 3]
   \<and> received (run daemon_options [Connection, SocketData 1 [TALK], StreamData 0 2, StreamEnd 0]
        (run daemon_options [ChildData Stdout [1, 2], Connection, ChildData Stderr [3]] spawnCommand)) 1
      = [1, 2, 3]"
proof -
  let ?es = "[ChildData Stdout [1, 2], Connection, ChildData Stderr [3]]"
  let ?d = "run daemon_options ?es spawnCommand"
  have a: "list_all child_open ?es"
    by (simp add: child_open_def)
  have n: "length (streams ?d) = 0" "length (sockets ?d) = 1"
    by (simp_all add: daemon_eval)
  have b: "list_all (drain_event (length (streams ?d))) [StreamData 0 2]"
    by (simp add: n drain_event_def)
  have w: "window 100000000 [1, 2, 3 :: byte] = [1, 2, 3]"
    by (simp add: window_def)
  from output_buffer_window [of "[[1, 2], [3]]" ?es daemon_options "[StreamData 0 2]" "[]"]
  show ?thesis
    using a b by (simp add: n w child_output_def)
qed

subsection \<open>The address of a command\<close>

text \<open>The digest is MD5: the test vector \<^verbatim>\<open>abc\<close> of RFC 1321, and the address of a command.\<close>

lemma md5_test_vector: "hex (md5 (bytes_of ''abc'')) = ''900150983cd24fb0d6963f7d28e17f72''"
  by code_simp

lemma path_join_examples:
  "path_join ''/run/user/1000'' ''daemon-x.sock'' = ''/run/user/1000/daemon-x.sock''"
  "path_join ''/tmp/'' ''f'' = ''/tmp/f''"
  "path_join ''/a/./b/../c//'' ''f'' = ''/a/c/f''"
  "path_join ''../a/../..'' ''f'' = ''../../f''"
  by (simp_all add: path_join_def normalize_def)

lemma getIPCHandle_example:
  "getIPCHandle linux \<lparr>path = ''/bin/bash'', args = [''-c'', ''date''], cwd = ''/home/u''\<rparr>
   = ''/run/user/1000/daemon-f47ada7c97e4b7608c4913d48a5ad79e.sock''"
  by code_simp

lemma bytes_of_append: "bytes_of (a @ b) = bytes_of a @ bytes_of b"
  by (simp add: bytes_of_def)

text \<open>
  The hexadecimal digest determines the bytes of the digest, and it holds no \<open>/\<close>.
\<close>

lemma hex_digit_inj:
  "i < 16 \<Longrightarrow> j < 16 \<Longrightarrow> ''0123456789abcdef'' ! i = ''0123456789abcdef'' ! j \<Longrightarrow> i = j"
proof -
  assume a: "i < 16" "j < 16" "''0123456789abcdef'' ! i = ''0123456789abcdef'' ! j"
  have d: "distinct ''0123456789abcdef''" by simp
  have l: "length ''0123456789abcdef'' = 16" by simp
  from a l nth_eq_iff_index_eq [OF d, of i j] show "i = j" by simp
qed

lemma hex_digit_plain: "k < 16 \<Longrightarrow> ''0123456789abcdef'' ! k \<noteq> CHR ''/''"
proof -
  assume "k < 16"
  then have "''0123456789abcdef'' ! k \<in> set ''0123456789abcdef''"
    by (intro nth_mem) simp
  then show ?thesis by auto
qed

lemma hex_Cons:
  "hex (b # bs) = ''0123456789abcdef'' ! (unat b div 16) # ''0123456789abcdef'' ! (unat b mod 16) # hex bs"
  by (simp add: hex_def)

lemma hex_Nil: "hex [] = []"
  by (simp add: hex_def)

lemma byte_nibbles: "unat (b :: byte) div 16 < 16"
proof -
  have "unat b < 2 ^ LENGTH(8)" by (rule unsigned_less)
  then show ?thesis by simp
qed

lemma hex_byte_inj:
  fixes a b :: byte
  assumes "''0123456789abcdef'' ! (unat a div 16) = ''0123456789abcdef'' ! (unat b div 16)"
    and "''0123456789abcdef'' ! (unat a mod 16) = ''0123456789abcdef'' ! (unat b mod 16)"
  shows "a = b"
proof -
  have "unat a div 16 = unat b div 16"
    using assms(1) by (rule hex_digit_inj [OF byte_nibbles byte_nibbles])
  moreover have "unat a mod 16 = unat b mod 16"
    using assms(2) by (intro hex_digit_inj) simp_all
  ultimately have "unat a = unat b"
    by (metis div_mult_mod_eq)
  then show ?thesis by (simp add: word_unat_eq_iff)
qed

lemma hex_inj: "hex a = hex b \<Longrightarrow> a = b"
proof (induction a arbitrary: b)
  case Nil
  then show ?case by (cases b) (simp_all add: hex_Nil hex_Cons)
next
  case (Cons x xs)
  then obtain y ys where b: "b = y # ys"
    by (cases b) (simp_all add: hex_Nil hex_Cons)
  have "x = y" and "hex xs = hex ys"
    using Cons.prems b by (simp_all add: hex_Cons hex_byte_inj)
  then show ?case using Cons.IH b by simp
qed

lemma hex_no_separator: "CHR ''/'' \<notin> set (hex bs)"
proof (induction bs)
  case Nil
  show ?case by (simp add: hex_Nil)
next
  case (Cons b bs)
  have "unat b mod 16 < 16" by simp
  then show ?case
    using Cons hex_digit_plain [OF byte_nibbles, of b] hex_digit_plain [of "unat b mod 16"]
    by (simp add: hex_Cons del: nth_Cons_numeral)
qed

lemma split_on_nonempty: "split_on c xs \<noteq> []"
  by (induction xs) (auto split: list.splits)

lemma split_on_plain: "c \<notin> set f \<Longrightarrow> split_on c f = [f]"
  by (induction f) auto

lemma split_on_append: "split_on c (xs @ c # ys) = split_on c xs @ split_on c ys"
proof (induction xs)
  case Nil
  show ?case by simp
next
  case (Cons x xs)
  obtain s ss where "split_on c xs = s # ss"
    using split_on_nonempty [of c xs] by (cases "split_on c xs") auto
  then show ?case using Cons by simp
qed

lemma normalize_segments_snoc:
  "f \<noteq> [] \<Longrightarrow> f \<noteq> ''.'' \<Longrightarrow> f \<noteq> ''..'' \<Longrightarrow>
   normalize_segments allow_up acc (xs @ [f]) = normalize_segments allow_up acc xs @ [f]"
  by (induction xs arbitrary: acc) (auto split: list.splits)

lemma join_with_snoc:
  "join_with sep (xs @ [f]) = (if xs = [] then f else join_with sep xs @ sep @ f)"
  by (induction sep xs rule: join_with.induct) auto

lemma path_join_file:
  assumes "f \<noteq> []" and "CHR ''/'' \<notin> set f" and "f \<noteq> ''.''" and "f \<noteq> ''..''"
  shows "path_join dir f
         = (if dir = [] then []
            else (if hd dir = CHR ''/'' then ''/'' else [])
                 @ (if normalize_segments (hd dir \<noteq> CHR ''/'') [] (split_on CHR ''/'' dir) = [] then []
                    else join_with ''/'' (normalize_segments (hd dir \<noteq> CHR ''/'') [] (split_on CHR ''/'' dir)) @ ''/''))
           @ f"
proof (cases "dir = []")
  case True
  have "hd f \<noteq> CHR ''/''" and "last f \<noteq> CHR ''/''"
    using assms(1,2) by (metis hd_in_set, metis last_in_set)
  then show ?thesis
    using True assms by (simp add: path_join_def normalize_def Let_def split_on_plain)
next
  case False
  have l: "last f \<noteq> CHR ''/''"
    using assms(1,2) by (metis last_in_set)
  have sp: "split_on CHR ''/'' (dir @ CHR ''/'' # f) = split_on CHR ''/'' dir @ [f]"
    using assms(2) by (simp add: split_on_append split_on_plain)
  show ?thesis
    using False assms l
    by (simp add: path_join_def normalize_def Let_def sp normalize_segments_snoc join_with_snoc)
qed

lemma sock_file_plain:
  "''daemon-'' @ hex bs @ ''.sock'' \<noteq> [] \<and> CHR ''/'' \<notin> set (''daemon-'' @ hex bs @ ''.sock'')
   \<and> ''daemon-'' @ hex bs @ ''.sock'' \<noteq> ''.'' \<and> ''daemon-'' @ hex bs @ ''.sock'' \<noteq> ''..''"
  by (simp add: hex_no_separator)

text \<open>
  Claim C3, as the code has it. The address is a function of the command (and of the
  platform and the runtime directory of the process), and it depends on the command only
  through the MD5 digest of the concatenation of the path, the arguments joined by commas
  and the working directory, with nothing between the three: two commands get the same
  address exactly when these digests are equal. So the same command always gets the same
  address, commands whose digests differ get different addresses, and commands that
  differ in a field but have the same concatenation get the same address.
\<close>

theorem address_of_digest:
  "getIPCHandle env c1 = getIPCHandle env c2
   \<longleftrightarrow> md5 (bytes_of (path c1 @ toString (args c1) @ cwd c1))
       = md5 (bytes_of (path c2 @ toString (args c2) @ cwd c2))"
proof -
  define m1 where "m1 = md5 (bytes_of (path c1 @ toString (args c1) @ cwd c1))"
  define m2 where "m2 = md5 (bytes_of (path c2 @ toString (args c2) @ cwd c2))"
  define dir where "dir = (case XDG_RUNTIME_DIR env of None \<Rightarrow> tmpdir env
                           | Some x \<Rightarrow> if x = [] then tmpdir env else x)"
  have g: "getIPCHandle env c =
          (if platform env = ''win32''
           then [CHR 0x5C, CHR 0x5C, CHR ''.'', CHR 0x5C] @ ''pipe'' @ [CHR 0x5C] @ ''daemon-''
                 @ hex (md5 (bytes_of (path c @ toString (args c) @ cwd c)))
           else path_join dir (''daemon-'' @ hex (md5 (bytes_of (path c @ toString (args c) @ cwd c))) @ ''.sock''))" for c
    by (simp add: getIPCHandle_def bytes_of_append dir_def Let_def)
  have "hex m1 = hex m2" if "getIPCHandle env c1 = getIPCHandle env c2"
  proof (cases "platform env = ''win32''")
    case True
    then show ?thesis using that by (simp add: g m1_def m2_def)
  next
    case False
    have "path_join dir (''daemon-'' @ hex m1 @ ''.sock'') = path_join dir (''daemon-'' @ hex m2 @ ''.sock'')"
      using that False by (simp add: g m1_def m2_def)
    then show ?thesis
      using sock_file_plain [of m1] sock_file_plain [of m2]
      by (simp add: path_join_file)
  qed
  then have "m1 = m2" if "getIPCHandle env c1 = getIPCHandle env c2"
    using that by (simp add: hex_inj)
  moreover have "getIPCHandle env c1 = getIPCHandle env c2" if "m1 = m2"
    using that by (simp add: g m1_def m2_def)
  ultimately show ?thesis
    unfolding m1_def m2_def by blast
qed

text \<open>
  \<^verbatim>\<open>ls a,b\<close> and \<^verbatim>\<open>ls a b\<close> in one directory are fed to the digest as the same bytes and
  share an address; \<^verbatim>\<open>ls a\<close> and \<^verbatim>\<open>ls b\<close> have different digests and different addresses.
\<close>

theorem address_of_digest_witness:
  "getIPCHandle linux \<lparr>path = ''ls'', args = [''a,b''], cwd = ''/home/u''\<rparr>
     = getIPCHandle linux \<lparr>path = ''ls'', args = [''a'', ''b''], cwd = ''/home/u''\<rparr>
   \<and> getIPCHandle linux \<lparr>path = ''ls'', args = [''a''], cwd = ''/home/u''\<rparr>
     \<noteq> getIPCHandle linux \<lparr>path = ''ls'', args = [''b''], cwd = ''/home/u''\<rparr>"
proof -
  have differ: "md5 (bytes_of ''lsa/home/u'') \<noteq> md5 (bytes_of ''lsb/home/u'')"
    by code_simp
  from address_of_digest [of linux "\<lparr>path = ''ls'', args = [''a,b''], cwd = ''/home/u''\<rparr>"
      "\<lparr>path = ''ls'', args = [''a'', ''b''], cwd = ''/home/u''\<rparr>"]
    address_of_digest [of linux "\<lparr>path = ''ls'', args = [''a''], cwd = ''/home/u''\<rparr>"
      "\<lparr>path = ''ls'', args = [''b''], cwd = ''/home/u''\<rparr>"]
    differ
  show ?thesis
    by (simp add: toString_def)
qed

text \<open>
  Claim C3 as stated fails: commands that differ in a field can have the same address.
  \<^verbatim>\<open>ls a,b\<close> and \<^verbatim>\<open>ls a b\<close> differ in their argument lists, and the command \<^verbatim>\<open>ab\<close>
  without arguments differs from the command \<^verbatim>\<open>a\<close> with the argument \<^verbatim>\<open>b\<close> in path and
  arguments; each pair, in the same working directory, is fed to the digest as the same
  bytes.
\<close>

theorem different_commands_share_address:
  "\<lparr>path = ''ls'', args = [''a,b''], cwd = ''/home/u''\<rparr>
     \<noteq> \<lparr>path = ''ls'', args = [''a'', ''b''], cwd = ''/home/u''\<rparr>
   \<and> getIPCHandle linux \<lparr>path = ''ls'', args = [''a,b''], cwd = ''/home/u''\<rparr>
     = getIPCHandle linux \<lparr>path = ''ls'', args = [''a'', ''b''], cwd = ''/home/u''\<rparr>
   \<and> \<lparr>path = ''ab'', args = [], cwd = ''/home/u''\<rparr> \<noteq> \<lparr>path = ''a'', args = [''b''], cwd = ''/home/u''\<rparr>
   \<and> getIPCHandle linux \<lparr>path = ''ab'', args = [], cwd = ''/home/u''\<rparr>
     = getIPCHandle linux \<lparr>path = ''a'', args = [''b''], cwd = ''/home/u''\<rparr>"
  by (simp add: getIPCHandle_def toString_def bytes_of_def)

subsection \<open>Connecting or launching\<close>

text \<open>
  Claim C7. \<^verbatim>\<open>connect\<close> tries the connection once. If it succeeds, that is all. If it is
  refused (and the client is not in attach-only mode), the handle is unlinked; if the
  unlink fails, its error is thrown and no daemon is launched; if it succeeds, a daemon is
  launched (\<^verbatim>\<open>cp.spawn\<close> of the Node executable with the script, \<^verbatim>\<open>--daemon\<close>, \<^verbatim>\<open>--wait\<close> if
  requested, and the command), the client waits 200 ms and tries the connection a second
  and last time. If there is no such address, the same without the unlink. The outcome is
  that of the second attempt, whose error is thrown. Any other error of the first attempt
  is thrown at once. In attach-only mode a refused connection or a missing address prints
  "No daemon running." and exits with 1, without launching. An error thrown by \<^verbatim>\<open>connect\<close>
  ends \<^verbatim>\<open>main\<close> with exit code 1 and nothing written to any socket.
\<close>

theorem connect_classifies:
  "(first_try os = None \<longrightarrow>
      connect p os command handle options = ([CreateConnection handle], Return))
   \<and> (first_try os = Some e \<and> \<not> attach options \<and> err_code e = ''ECONNREFUSED'' \<longrightarrow>
      connect p os command handle options =
        (case unlink_result os of
           Some unlink_err \<Rightarrow> ([CreateConnection handle, Unlink handle], Throw unlink_err)
         | None \<Rightarrow>
             ([CreateConnection handle, Unlink handle,
               Spawn (execPath p)
                 ([argv1 p, ''--daemon''] @ (if wait options then [''--wait''] else [])
                    @ [path command] @ args command),
               Sleep 200, CreateConnection handle],
              case retry os of None \<Rightarrow> Return | Some e2 \<Rightarrow> Throw e2)))
   \<and> (first_try os = Some e \<and> \<not> attach options \<and> err_code e = ''ENOENT'' \<longrightarrow>
      connect p os command handle options =
        ([CreateConnection handle,
          Spawn (execPath p)
            ([argv1 p, ''--daemon''] @ (if wait options then [''--wait''] else [])
               @ [path command] @ args command),
          Sleep 200, CreateConnection handle],
         case retry os of None \<Rightarrow> Return | Some e2 \<Rightarrow> Throw e2))
   \<and> (first_try os = Some e \<and> err_code e \<noteq> ''ECONNREFUSED'' \<and> err_code e \<noteq> ''ENOENT'' \<longrightarrow>
      connect p os command handle options = ([CreateConnection handle], Throw e))
   \<and> (first_try os = Some e \<and> attach options \<and> (err_code e = ''ECONNREFUSED'' \<or> err_code e = ''ENOENT'') \<longrightarrow>
      connect p os command handle options =
        ([CreateConnection handle, ConsoleError ''[deemon] No daemon running.''], Exit 1))
   \<and> (\<not> daemon options \<and> \<not> detach options
        \<and> snd (connect p os command (getIPCHandle env command) options) = Throw e \<longrightarrow>
      client_exit (main p env os os2 command options) = Some 1
      \<and> sent (main p env os os2 command options) = [])"
proof -
  have fatal: "client_exit (main p env os os2 command options) = Some 1
      \<and> sent (main p env os os2 command options) = []"
    if h1: "\<not> daemon options" and h2: "\<not> detach options"
      and h3: "snd (connect p os command (getIPCHandle env command) options) = Throw e"
  proof -
    obtain fx where "connect p os command (getIPCHandle env command) options = (fx, Throw e)"
      using h3 by (cases "connect p os command (getIPCHandle env command) options") simp
    then show ?thesis
      using h1 h2 by (simp add: main_def connected_def start_def Let_def)
  qed
  show ?thesis
    using fatal by (auto simp add: connect_def launch_def spawnDaemon_def split: option.splits)
qed

text \<open>
  A stale handle: refused, unlinked, daemon launched, second attempt succeeds. A missing
  address in wait mode whose second attempt is refused: that error is thrown. Permission
  denied on the first attempt: thrown at once, and \<^verbatim>\<open>main\<close> exits with 1. Attach-only mode
  with a missing address: exit 1 and nothing launched.
\<close>

theorem connect_classifies_witness:
  "connect node \<lparr>first_try = Some (Error ''ECONNREFUSED''), unlink_result = None, retry = None\<rparr>
        \<lparr>path = ''/bin/date'', args = [''-u''], cwd = ''/home/u''\<rparr> ''/tmp/daemon-x.sock''
        \<lparr>daemon = False, kill = False, restart = False, detach = False, wait = False, attach = False\<rparr> =
     ([CreateConnection ''/tmp/daemon-x.sock'', Unlink ''/tmp/daemon-x.sock'',
       Spawn ''/usr/bin/node'' [''/usr/lib/node_modules/deemon/main.js'', ''--daemon'', ''/bin/date'', ''-u''],
       Sleep 200, CreateConnection ''/tmp/daemon-x.sock''],
      Return)
   \<and> connect node \<lparr>first_try = Some (Error ''ENOENT''), unlink_result = None, retry = Some (Error ''ECONNREFUSED'')\<rparr>
        \<lparr>path = ''/bin/date'', args = [''-u''], cwd = ''/home/u''\<rparr> ''/tmp/daemon-x.sock''
        \<lparr>daemon = False, kill = False, restart = False, detach = False, wait = True, attach = False\<rparr> =
     ([CreateConnection ''/tmp/daemon-x.sock'',
       Spawn ''/usr/bin/node'' [''/usr/lib/node_modules/deemon/main.js'', ''--daemon'', ''--wait'', ''/bin/date'', ''-u''],
       Sleep 200, CreateConnection ''/tmp/daemon-x.sock''],
      Throw (Error ''ECONNREFUSED''))
   \<and> connect node \<lparr>first_try = Some (Error ''EACCES''), unlink_result = None, retry = None\<rparr>
        \<lparr>path = ''/bin/date'', args = [''-u''], cwd = ''/home/u''\<rparr> ''/tmp/daemon-x.sock''
        \<lparr>daemon = False, kill = False, restart = False, detach = False, wait = False, attach = False\<rparr> =
     ([CreateConnection ''/tmp/daemon-x.sock''], Throw (Error ''EACCES''))
   \<and> connect node \<lparr>first_try = Some (Error ''ENOENT''), unlink_result = None, retry = None\<rparr>
        \<lparr>path = ''/bin/date'', args = [''-u''], cwd = ''/home/u''\<rparr> ''/tmp/daemon-x.sock''
        \<lparr>daemon = False, kill = False, restart = False, detach = False, wait = False, attach = True\<rparr> =
     ([CreateConnection ''/tmp/daemon-x.sock'', ConsoleError ''[deemon] No daemon running.''], Exit 1)
   \<and> client_exit (main node linux \<lparr>first_try = Some (Error ''EACCES''), unlink_result = None, retry = None\<rparr>
        no_error date_loop plain_options) = Some 1"
proof -
  let ?refused = "\<lparr>first_try = Some (Error ''ECONNREFUSED''), unlink_result = None, retry = None\<rparr>"
  let ?missing = "\<lparr>first_try = Some (Error ''ENOENT''), unlink_result = None, retry = Some (Error ''ECONNREFUSED'')\<rparr>"
  let ?missing' = "\<lparr>first_try = Some (Error ''ENOENT''), unlink_result = None, retry = None\<rparr>"
  let ?denied = "\<lparr>first_try = Some (Error ''EACCES''), unlink_result = None, retry = None\<rparr>"
  let ?date = "\<lparr>path = ''/bin/date'', args = [''-u''], cwd = ''/home/u''\<rparr>"
  let ?plain = "\<lparr>daemon = False, kill = False, restart = False, detach = False, wait = False, attach = False\<rparr>"
  let ?waiting = "\<lparr>daemon = False, kill = False, restart = False, detach = False, wait = True, attach = False\<rparr>"
  let ?attach = "\<lparr>daemon = False, kill = False, restart = False, detach = False, wait = False, attach = True\<rparr>"
  have b: "\<not> daemon plain_options" "\<not> detach plain_options"
    by (simp_all add: plain_options_def)
  have c: "snd (connect node ?denied date_loop (getIPCHandle linux date_loop) plain_options) = Throw (Error ''EACCES'')"
    by (simp add: connect_def plain_options_def)
  from connect_classifies [of ?refused node ?date "''/tmp/daemon-x.sock''" ?plain "Error ''ECONNREFUSED''"]
    connect_classifies [of ?missing node ?date "''/tmp/daemon-x.sock''" ?waiting "Error ''ENOENT''"]
    connect_classifies [of ?denied node ?date "''/tmp/daemon-x.sock''" ?plain "Error ''EACCES''"]
    connect_classifies [of ?missing' node ?date "''/tmp/daemon-x.sock''" ?attach "Error ''ENOENT''"]
    connect_classifies [of ?denied node date_loop "''/tmp/daemon-x.sock''" plain_options
      "Error ''EACCES''" linux no_error]
  show ?thesis
    using b c by (simp add: node_def)
qed

text \<open>
  The claim as the specification words it fails where the stale handle cannot be deleted:
  the connection is refused, \<^verbatim>\<open>unlink\<close> fails with \<^verbatim>\<open>EPERM\<close>, and \<^verbatim>\<open>connect\<close> throws that
  error after the two calls; no daemon is launched and there is no second attempt.
\<close>

theorem unlink_failure_stops_launch:
  "connect node \<lparr>first_try = Some (Error ''ECONNREFUSED''), unlink_result = Some (Error ''EPERM''), retry = None\<rparr>
        \<lparr>path = ''/bin/date'', args = [''-u''], cwd = ''/home/u''\<rparr> ''/tmp/daemon-x.sock''
        \<lparr>daemon = False, kill = False, restart = False, detach = False, wait = False, attach = False\<rparr> =
     ([CreateConnection ''/tmp/daemon-x.sock'', Unlink ''/tmp/daemon-x.sock''], Throw (Error ''EPERM''))"
  by (simp add: connect_def)

subsection \<open>What the client writes to the daemon\<close>

lemma client_run_exited: "client_exit c \<noteq> None \<Longrightarrow> client_run es c = c"
  unfolding client_run_def by (induction es) (simp_all add: client_step_def)

lemma client_run_no_handlers: "\<not> handlers c \<Longrightarrow> client_run es c = c"
  unfolding client_run_def by (induction es) (simp_all add: client_step_def)

lemma client_run_Cons: "client_run (e # es) c = client_run es (client_step e c)"
  by (simp add: client_run_def)

lemma client_run_snoc: "client_run (es @ [e]) c = client_step e (client_run es c)"
  by (simp add: client_run_def)

text \<open>One turn either leaves the sockets alone, or it is Ctrl-D: one \<open>KILL\<close>, then exit.\<close>

lemma client_step_sent:
  "(sent (client_step e c) = sent c \<and> cur_socket (client_step e c) = cur_socket c
      \<and> handlers (client_step e c) = handlers c)
   \<or> (e = Keypress ctrl_d \<and> sent (client_step e c) = sent c @ [(cur_socket c, [KILL])]
      \<and> client_exit (client_step e c) \<noteq> None)"
proof (cases "client_exit c \<noteq> None \<or> \<not> handlers c")
  case True
  then show ?thesis by (simp add: client_step_def)
next
  case False
  then show ?thesis
    by (cases e)
       (auto simp add: client_step_def on_keypress_def on_data_def on_last_byte_timeout_def
          on_close_def Let_def split: option.splits)
qed

lemma client_run_sent:
  "sent (client_run es c) = sent c
   \<or> (Keypress ctrl_d \<in> set es \<and> sent (client_run es c) = sent c @ [(cur_socket c, [KILL])])"
proof (induction es arbitrary: c)
  case Nil
  show ?case by (simp add: client_run_def)
next
  case (Cons e es)
  from client_step_sent [of e c] show ?case
  proof
    assume same: "sent (client_step e c) = sent c \<and> cur_socket (client_step e c) = cur_socket c
      \<and> handlers (client_step e c) = handlers c"
    from Cons.IH [of "client_step e c"] show ?thesis
      using same by (auto simp add: client_run_Cons)
  next
    assume killed: "e = Keypress ctrl_d \<and> sent (client_step e c) = sent c @ [(cur_socket c, [KILL])]
      \<and> client_exit (client_step e c) \<noteq> None"
    then have k1: "e = Keypress ctrl_d"
      and k2: "sent (client_step e c) = sent c @ [(cur_socket c, [KILL])]"
      and k3: "client_exit (client_step e c) \<noteq> None"
      by blast+
    have "client_run es (client_step e c) = client_step e c"
      using k3 by (rule client_run_exited)
    then have "sent (client_run (e # es) c) = sent c @ [(cur_socket c, [KILL])]"
      using k2 by (simp add: client_run_Cons)
    moreover have "Keypress ctrl_d \<in> set (e # es)"
      using k1 by simp
    ultimately show ?thesis by blast
  qed
qed

text \<open>What \<^verbatim>\<open>main\<close> has written when it has run to its last line or exited.\<close>

lemma main_sent:
  "sent (main p env os1 os2 command options) = []
   \<or> sent (main p env os1 os2 command options) = [(0, [KILL])]
   \<or> (sent (main p env os1 os2 command options) = [(0, [TALK])]
        \<and> cur_socket (main p env os1 os2 command options) = 0)
   \<or> (sent (main p env os1 os2 command options) = [(0, [KILL]), (1, [TALK])]
        \<and> cur_socket (main p env os1 os2 command options) = 1)"
proof -
  obtain fx1 r1 where c1: "connect p os1 command (getIPCHandle env command) options = (fx1, r1)"
    by (cases "connect p os1 command (getIPCHandle env command) options")
  obtain fx2 r2 where c2: "connect p os2 command (getIPCHandle env command) options = (fx2, r2)"
    by (cases "connect p os2 command (getIPCHandle env command) options")
  show ?thesis
    by (cases r1; cases r2)
       (simp_all add: main_def Let_def c1 c2 connected_def start_def attach_session_def)
qed

lemma sent_on_simps:
  "sent_on (c\<lparr>sent := []\<rparr>) k = []"
  "sent_on (c\<lparr>sent := ws @ [(j, bs)]\<rparr>) k = sent_on (c\<lparr>sent := ws\<rparr>) k @ (if j = k then bs else [])"
  by (simp_all add: sent_on_def)

text \<open>
  Claim C9, as the code has it. Whatever the options, the answers of the operating system
  and the events that follow, the bytes the client writes on a connection are nothing,
  \<open>KILL\<close>, \<open>TALK\<close>, or \<open>TALK\<close> followed by \<open>KILL\<close>. \<^verbatim>\<open>main\<close> itself writes at most one
  byte per connection, a command byte; if the first connection is made it writes exactly
  one on it at once (\<open>KILL\<close> with \<^verbatim>\<open>--kill\<close> or \<^verbatim>\<open>--restart\<close>, else \<open>TALK\<close>), and
  exactly \<open>TALK\<close> on the connection made after a restart. A second byte is written only
  when Ctrl-D is pressed in an attached session: without that keypress every connection
  carries at most one byte.
\<close>

theorem client_traffic:
  assumes "c = client_run es (main p env os1 os2 command options)"
  shows "sent_on c k \<in> {[], [KILL], [TALK], [TALK, KILL]}
       \<and> sent_on (main p env os1 os2 command options) k \<in> {[], [KILL], [TALK]}
       \<and> (Keypress ctrl_d \<notin> set es \<longrightarrow> sent_on c k \<in> {[], [KILL], [TALK]})
       \<and> (\<not> daemon options \<and> \<not> detach options
            \<and> snd (connect p os1 command (getIPCHandle env command) options) = Return \<longrightarrow>
          sent_on (main p env os1 os2 command options) 0
            = [if kill options \<or> restart options then KILL else TALK])
       \<and> (\<not> daemon options \<and> \<not> detach options \<and> \<not> kill options \<and> restart options
            \<and> snd (connect p os1 command (getIPCHandle env command) options) = Return
            \<and> snd (connect p os2 command (getIPCHandle env command) options) = Return \<longrightarrow>
          sent_on (main p env os1 os2 command options) 1 = [TALK])"
proof -
  let ?m = "main p env os1 os2 command options"
  have second: "sent_on ?m 1 = [TALK]"
    if h1: "\<not> daemon options" and h2: "\<not> detach options" and h3: "\<not> kill options"
      and h4: "restart options"
      and h5: "snd (connect p os1 command (getIPCHandle env command) options) = Return"
      and h6: "snd (connect p os2 command (getIPCHandle env command) options) = Return"
  proof -
    obtain fx1 where c1: "connect p os1 command (getIPCHandle env command) options = (fx1, Return)"
      using h5 by (cases "connect p os1 command (getIPCHandle env command) options") simp
    obtain fx2 where c2: "connect p os2 command (getIPCHandle env command) options = (fx2, Return)"
      using h6 by (cases "connect p os2 command (getIPCHandle env command) options") simp
    show ?thesis
      using h1 h2 h3 h4
      by (simp add: main_def Let_def c1 c2 connected_def start_def attach_session_def sent_on_def)
  qed
  have first: "sent_on ?m 0 = [if kill options \<or> restart options then KILL else TALK]"
    if h1: "\<not> daemon options" and h2: "\<not> detach options"
      and h3: "snd (connect p os1 command (getIPCHandle env command) options) = Return"
  proof -
    obtain fx1 where c1: "connect p os1 command (getIPCHandle env command) options = (fx1, Return)"
      using h3 by (cases "connect p os1 command (getIPCHandle env command) options") simp
    obtain fx2 r2 where c2: "connect p os2 command (getIPCHandle env command) options = (fx2, r2)"
      by (cases "connect p os2 command (getIPCHandle env command) options")
    show ?thesis
      using h1 h2
      by (cases r2)
         (simp_all add: main_def Let_def c1 c2 connected_def start_def attach_session_def sent_on_def)
  qed
  have run: "sent c = sent ?m \<or> (Keypress ctrl_d \<in> set es \<and> sent c = sent ?m @ [(cur_socket ?m, [KILL])])"
    unfolding assms by (rule client_run_sent)
  have not_attached: "sent c = sent ?m" if "sent ?m = [] \<or> sent ?m = [(0, [KILL])]"
  proof -
    have "\<not> handlers ?m \<or> client_exit ?m \<noteq> None"
    proof -
      obtain fx1 r1 where c1: "connect p os1 command (getIPCHandle env command) options = (fx1, r1)"
        by (cases "connect p os1 command (getIPCHandle env command) options")
      obtain fx2 r2 where c2: "connect p os2 command (getIPCHandle env command) options = (fx2, r2)"
        by (cases "connect p os2 command (getIPCHandle env command) options")
      show ?thesis
        using that
        by (cases r1; cases r2)
           (auto simp add: main_def Let_def c1 c2 connected_def start_def attach_session_def
              KILL_def TALK_def split: if_splits)
    qed
    then have "c = ?m"
      unfolding assms using client_run_exited client_run_no_handlers by blast
    then show ?thesis by simp
  qed
  have three: "sent_on c k \<in> {[], [KILL], [TALK], [TALK, KILL]}
       \<and> sent_on (main p env os1 os2 command options) k \<in> {[], [KILL], [TALK]}
       \<and> (Keypress ctrl_d \<notin> set es \<longrightarrow> sent_on c k \<in> {[], [KILL], [TALK]})"
    using main_sent [of p env os1 os2 command options]
  proof (elim disjE conjE)
    assume m: "sent ?m = []"
    then show ?thesis using not_attached by (simp add: sent_on_def)
  next
    assume m: "sent ?m = [(0, [KILL])]"
    then show ?thesis using not_attached by (simp add: sent_on_def)
  next
    assume m: "sent ?m = [(0, [TALK])]" and s: "cur_socket ?m = 0"
    then show ?thesis using run by (auto simp add: sent_on_def)
  next
    assume m: "sent ?m = [(0, [KILL]), (1, [TALK])]" and s: "cur_socket ?m = 1"
    then show ?thesis using run by (auto simp add: sent_on_def)
  qed
  show ?thesis
    using three first second by blast
qed

theorem client_traffic_witness:
  "sent_on (client_run [Data [104, 105], Keypress ctrl_c] (main node linux no_error no_error date_loop plain_options)) 0
     = [TALK]
   \<and> sent_on (client_run [Keypress ctrl_d]
        (main node linux no_error no_error date_loop (plain_options\<lparr>restart := True\<rparr>))) 0 = [KILL]
   \<and> sent_on (client_run [Keypress ctrl_d]
        (main node linux no_error no_error date_loop (plain_options\<lparr>restart := True\<rparr>))) 1 = [TALK, KILL]"
proof -
  have a: "sent_on (client_run [Data [104, 105], Keypress ctrl_c]
      (main node linux no_error no_error date_loop plain_options)) 0 \<noteq> []"
    by (simp add: client_run_def client_step_def on_data_def on_keypress_def main_def connect_def
          connected_def attach_session_def start_def sent_on_def no_error_def plain_options_def
          ctrl_c_def ctrl_d_def Let_def)
  have b: "sent_on (client_run [Data [104, 105], Keypress ctrl_c]
      (main node linux no_error no_error date_loop plain_options)) 0 \<noteq> [KILL]"
    by (simp add: client_run_def client_step_def on_data_def on_keypress_def main_def connect_def
          connected_def attach_session_def start_def sent_on_def no_error_def plain_options_def
          ctrl_c_def ctrl_d_def Let_def KILL_def TALK_def)
  have c: "Keypress ctrl_d \<notin> set [Data [104, 105], Keypress ctrl_c]"
    by (simp add: ctrl_c_def ctrl_d_def)
  have d: "sent_on (client_run [Keypress ctrl_d]
        (main node linux no_error no_error date_loop (plain_options\<lparr>restart := True\<rparr>))) 0 = [KILL]
   \<and> sent_on (client_run [Keypress ctrl_d]
        (main node linux no_error no_error date_loop (plain_options\<lparr>restart := True\<rparr>))) 1 = [TALK, KILL]"
    by (simp add: client_run_def client_step_def on_keypress_def main_def connect_def
          connected_def attach_session_def start_def sent_on_def no_error_def plain_options_def
          ctrl_d_def ctrl_c_def Let_def)
  from client_traffic [OF refl, of "[Data [104, 105], Keypress ctrl_c]" node linux no_error no_error
      date_loop plain_options 0]
  show ?thesis
    using a b c d by auto
qed

text \<open>
  Claim C9 as stated fails: in an attached session Ctrl-D writes \<open>KILL\<close> on the connection
  that already carried \<open>TALK\<close> (lines 238-242).
\<close>

theorem ctrl_d_sends_second_byte:
  "sent_on (client_run [Keypress ctrl_d] (main node linux no_error no_error date_loop plain_options)) 0
   = [TALK, KILL]"
  by (simp add: client_run_def client_step_def on_keypress_def main_def connect_def
        connected_def attach_session_def start_def sent_on_def no_error_def plain_options_def
        ctrl_d_def ctrl_c_def Let_def)

subsection \<open>The byte the client holds back\<close>

text \<open>An attached client that has not exited handles every chunk with \<open>on_data\<close>.\<close>

lemma data_step_attached:
  assumes "handlers c" and "client_exit c = None"
  shows "client_step (Data data) c = on_data data c"
    and "handlers (client_step (Data data) c)"
    and "client_exit (client_step (Data data) c) = None"
  using assms by (simp_all add: client_step_def on_data_def Let_def split: option.splits)

lemma data_run_attached:
  assumes "handlers c" and "client_exit c = None"
  shows "handlers (client_run (map Data chunks) c) \<and> client_exit (client_run (map Data chunks) c) = None"
  using assms
proof (induction chunks arbitrary: c)
  case Nil
  then show ?case by (simp add: client_run_def)
next
  case (Cons x xs)
  note s = data_step_attached(2,3) [OF Cons.prems, of x]
  from Cons.IH [OF s] show ?case
    by (simp add: client_run_Cons)
qed

lemma on_data_held:
  "stdout (on_data data c) @ held (on_data data c) = stdout c @ held c @ data"
  by (cases data rule: rev_cases)
     (auto simp add: on_data_def held_def Let_def split: option.splits)

lemma on_data_lastByte:
  "lastByte (on_data data c) = (if data = [] then lastByte c else Some (last data))"
  by (auto simp add: on_data_def Let_def split: option.splits)

lemma on_data_timer: "lastByteTimer (on_data data c) = (length data > 1)"
  by (auto simp add: on_data_def Let_def split: option.splits)

text \<open>
  Claim C6, as the code has it. Take an attached client that has received nothing yet, and
  let any chunks arrive, with no timer firing in between. Then its output followed by the
  byte it holds is exactly what it received: all but the last byte received were written
  to the output in order, and the last one is held. A chunk starts the 100 ms timer if and
  only if it is longer than one byte (every chunk first cancels a pending timer). If the
  timer is pending and fires, the held byte is written to the output. When the socket
  closes, nothing is written to the output and the client exits with the held byte as its
  code, or with 0 when it never received a byte.
\<close>

theorem holdback:
  assumes "handlers c" and "client_exit c = None" and "lastByte c = None"
    and "c' = client_run (map Data chunks) c"
  shows "stdout c' @ held c' = stdout c @ concat chunks
       \<and> held c' = (if concat chunks = [] then [] else [last (concat chunks)])
       \<and> lastByteTimer (client_step (Data data) c') = (length data > 1)
       \<and> (lastByteTimer c' \<longrightarrow> stdout (client_step LastByteTimeout c') = stdout c' @ held c')
       \<and> stdout (client_step Close c') = stdout c'
       \<and> client_exit (client_step Close c')
           = Some (if concat chunks = [] then 0 else uint (last (concat chunks)))"
proof -
  have main: "stdout (client_run (map Data chunks) c) @ held (client_run (map Data chunks) c)
                = stdout c @ concat chunks
              \<and> held (client_run (map Data chunks) c)
                = (if concat chunks = [] then [] else [last (concat chunks)])"
  proof (induction chunks rule: rev_induct)
    case Nil
    show ?case using assms(3) by (simp add: client_run_def held_def)
  next
    case (snoc x xs)
    let ?b = "client_run (map Data xs) c"
    have att: "handlers ?b" "client_exit ?b = None"
      using data_run_attached [OF assms(1,2), of xs] by simp_all
    have st: "client_run (map Data (xs @ [x])) c = on_data x ?b"
      using data_step_attached(1) [OF att, of x] by (simp add: client_run_snoc)
    from snoc.IH have ih1: "stdout ?b @ held ?b = stdout c @ concat xs"
      and ih2: "held ?b = (if concat xs = [] then [] else [last (concat xs)])"
      by blast+
    have "stdout (on_data x ?b) @ held (on_data x ?b) = (stdout ?b @ held ?b) @ x"
      using on_data_held [of x ?b] by simp
    also have "\<dots> = (stdout c @ concat xs) @ x"
      by (simp only: ih1)
    also have "\<dots> = stdout c @ concat (xs @ [x])"
      by simp
    finally have a: "stdout (on_data x ?b) @ held (on_data x ?b) = stdout c @ concat (xs @ [x])" .
    have b: "held (on_data x ?b) = (if concat (xs @ [x]) = [] then [] else [last (concat (xs @ [x]))])"
    proof (cases "x = []")
      case True
      then show ?thesis using ih2 by (simp add: held_def on_data_lastByte)
    next
      case False
      then show ?thesis by (simp add: held_def on_data_lastByte)
    qed
    show ?case
      unfolding st using a b by blast
  qed
  have att: "handlers c'" "client_exit c' = None"
    using data_run_attached [OF assms(1,2), of chunks] assms(4) by simp_all
  have h: "held c' = (if concat chunks = [] then [] else [last (concat chunks)])"
    using main assms(4) by simp
  have timer: "lastByteTimer (client_step (Data data) c') = (length data > 1)"
    using data_step_attached(1) [OF att, of data] by (simp add: on_data_timer)
  have fire: "stdout (client_step LastByteTimeout c') = stdout c' @ held c'" if "lastByteTimer c'"
    using that att by (simp add: client_step_def on_last_byte_timeout_def held_def split: option.splits)
  have close: "stdout (client_step Close c') = stdout c'"
    using att by (simp add: client_step_def on_close_def Let_def)
  have code: "client_exit (client_step Close c')
           = Some (if concat chunks = [] then 0 else uint (last (concat chunks)))"
    using att h by (auto simp add: client_step_def on_close_def Let_def held_def split: option.splits if_splits)
  have m: "stdout c' @ held c' = stdout c @ concat chunks"
    using main assms(4) by blast
  show ?thesis
    using m h timer fire close code by blast
qed

theorem holdback_witness:
  "stdout (client_run [Data [104, 105, 10], Data [0]] (main node linux no_error no_error date_loop plain_options))
     = [104, 105, 10]
   \<and> held (client_run [Data [104, 105, 10], Data [0]] (main node linux no_error no_error date_loop plain_options))
     = [0]
   \<and> client_exit (client_step Close
       (client_run [Data [104, 105, 10], Data [0]] (main node linux no_error no_error date_loop plain_options)))
     = Some 0"
proof -
  let ?c = "main node linux no_error no_error date_loop plain_options"
  let ?c' = "client_run [Data [104, 105, 10], Data [0]] ?c"
  have h: "handlers ?c" "client_exit ?c = None" "lastByte ?c = None" and s: "stdout ?c = []"
    by (simp_all add: main_def connect_def connected_def attach_session_def start_def
          no_error_def plain_options_def Let_def)
  have e: "?c' = client_run (map Data [[104, 105, 10], [0]]) ?c"
    by simp
  note hb = holdback [OF h e, where data = "[]"]
  from hb have a: "held ?c' = [0]"
    by simp
  from hb have b: "client_exit (client_step Close ?c') = Some 0"
    by simp
  from hb [THEN conjunct1] have "stdout ?c' @ held ?c' = [104, 105, 10] @ [0]"
    by (simp add: s)
  then have "stdout ?c' @ [0] = [104, 105, 10] @ [0]"
    by (simp only: a)
  then have "stdout ?c' = [104, 105, 10]"
    by (rule append1_eq_conv [THEN iffD1, THEN conjunct1])
  with a b show ?thesis
    by blast
qed

text \<open>
  Claim C6 as stated fails: a timer is not started on every receipt. A chunk of one byte
  starts none (line 259), so the byte stays held, and is not written to the output, until
  more data or the close arrives.
\<close>

theorem single_byte_starts_no_timer:
  "\<not> lastByteTimer (client_run [Data [65]] (main node linux no_error no_error date_loop plain_options))
   \<and> lastByte (client_run [Data [65]] (main node linux no_error no_error date_loop plain_options)) = Some 65
   \<and> stdout (client_run [Data [65], LastByteTimeout]
        (main node linux no_error no_error date_loop plain_options)) = []"
  by (simp add: client_run_def client_step_def on_data_def main_def connect_def connected_def
        attach_session_def start_def no_error_def plain_options_def Let_def)

text \<open>The held byte after the timer has written it: it is written again with the next chunk.\<close>

lemma timer_flush_keeps_byte:
  "stdout (client_run [Data [104, 105], LastByteTimeout, Data [33, 10]]
      (main node linux no_error no_error date_loop plain_options)) = [104, 105, 105, 33]"
  by (simp add: client_run_def client_step_def on_data_def on_last_byte_timeout_def main_def
        connect_def connected_def attach_session_def start_def no_error_def plain_options_def Let_def)

end
